theory Spec2Isabelle
  imports Complex_Main
begin

section \<open>JavaScript numbers\<close>

text \<open>
  A JavaScript Number is a finite value, one of the two infinities, or NaN. Finite values
  are kept as exact reals: the rounding and the overflow of IEEE doubles, and the sign of
  zero, are not part of this model. Every arithmetic operator of \<^verbatim>\<open>script.js\<close> that the
  engine uses is written out on all four kinds of value.
\<close>

datatype jsnum = Fin real | PInf | NInf | NaN

fun jsadd :: "jsnum \<Rightarrow> jsnum \<Rightarrow> jsnum" where
  "jsadd (Fin a) (Fin b) = Fin (a + b)"
| "jsadd NaN _ = NaN"
| "jsadd _ NaN = NaN"
| "jsadd PInf NInf = NaN"
| "jsadd NInf PInf = NaN"
| "jsadd PInf _ = PInf"
| "jsadd _ PInf = PInf"
| "jsadd NInf _ = NInf"
| "jsadd _ NInf = NInf"

fun jsneg :: "jsnum \<Rightarrow> jsnum" where
  "jsneg (Fin a) = Fin (- a)"
| "jsneg PInf = NInf"
| "jsneg NInf = PInf"
| "jsneg NaN = NaN"

definition jssub :: "jsnum \<Rightarrow> jsnum \<Rightarrow> jsnum" where
  "jssub a b = jsadd a (jsneg b)"

text \<open>The sign of an infinite product; an infinity times zero is NaN.\<close>

definition signed_inf :: "real \<Rightarrow> jsnum" where
  "signed_inf s = (if s = 0 then NaN else if 0 < s then PInf else NInf)"

fun jsmul :: "jsnum \<Rightarrow> jsnum \<Rightarrow> jsnum" where
  "jsmul (Fin a) (Fin b) = Fin (a * b)"
| "jsmul NaN _ = NaN"
| "jsmul _ NaN = NaN"
| "jsmul PInf (Fin b) = signed_inf b"
| "jsmul NInf (Fin b) = signed_inf (- b)"
| "jsmul (Fin a) PInf = signed_inf a"
| "jsmul (Fin a) NInf = signed_inf (- a)"
| "jsmul PInf PInf = PInf"
| "jsmul NInf NInf = PInf"
| "jsmul PInf NInf = NInf"
| "jsmul NInf PInf = NInf"

fun jsdiv :: "jsnum \<Rightarrow> jsnum \<Rightarrow> jsnum" where
  "jsdiv (Fin a) (Fin b) = (if b = 0 then signed_inf a else Fin (a / b))"
| "jsdiv NaN _ = NaN"
| "jsdiv _ NaN = NaN"
| "jsdiv (Fin a) PInf = Fin 0"
| "jsdiv (Fin a) NInf = Fin 0"
| "jsdiv PInf (Fin b) = (if 0 \<le> b then PInf else NInf)"
| "jsdiv NInf (Fin b) = (if 0 \<le> b then NInf else PInf)"
| "jsdiv _ _ = NaN"

text \<open>\<^verbatim>\<open>a % b\<close>: the remainder of the division truncated towards zero.\<close>

definition trunc :: "real \<Rightarrow> int" where
  "trunc x = (if 0 \<le> x then \<lfloor>x\<rfloor> else \<lceil>x\<rceil>)"

fun jsmod :: "jsnum \<Rightarrow> jsnum \<Rightarrow> jsnum" where
  "jsmod (Fin a) (Fin b) = (if b = 0 then NaN else Fin (a - b * of_int (trunc (a / b))))"
| "jsmod (Fin a) PInf = Fin a"
| "jsmod (Fin a) NInf = Fin a"
| "jsmod _ _ = NaN"

fun jsfloor :: "jsnum \<Rightarrow> jsnum" where
  "jsfloor (Fin a) = Fin (of_int \<lfloor>a\<rfloor>)"
| "jsfloor x = x"

text \<open>\<^verbatim>\<open>a < b\<close> and \<^verbatim>\<open>a === b\<close> on numbers: every comparison with NaN is false.\<close>

fun jslt :: "jsnum \<Rightarrow> jsnum \<Rightarrow> bool" where
  "jslt NaN _ = False"
| "jslt _ NaN = False"
| "jslt (Fin a) (Fin b) = (a < b)"
| "jslt NInf NInf = False"
| "jslt NInf _ = True"
| "jslt _ NInf = False"
| "jslt PInf _ = False"
| "jslt _ PInf = True"

definition jsgt :: "jsnum \<Rightarrow> jsnum \<Rightarrow> bool" where
  "jsgt a b = jslt b a"

definition jseq :: "jsnum \<Rightarrow> jsnum \<Rightarrow> bool" where
  "jseq a b = (a \<noteq> NaN \<and> a = b)"

definition isNaN :: "jsnum \<Rightarrow> bool" where
  "isNaN a = (a = NaN)"

section \<open>Arrays, matrices and errors\<close>

type_synonym vec = "jsnum list"
type_synonym matrix = "jsnum list list"

text \<open>
  \<open>TypeError\<close>: a property of \<^verbatim>\<open>undefined\<close> is read. \<open>RangeError\<close>: \<^verbatim>\<open>Array(n)\<close> with an
  invalid length. \<open>Incompatible\<close>: the \<^verbatim>\<open>Error\<close> that \<^verbatim>\<open>matrixMultiply\<close> throws itself.
\<close>

datatype error = TypeError | RangeError | Incompatible

text \<open>
  Reading \<^verbatim>\<open>row[k]\<close> past the end gives \<^verbatim>\<open>undefined\<close>; every such read of the engine is an
  operand of a multiplication, where \<^verbatim>\<open>undefined\<close> converts to NaN.
\<close>

definition elem :: "vec \<Rightarrow> nat \<Rightarrow> jsnum" where
  "elem row k = (if k < length row then row ! k else NaN)"

text \<open>\<^verbatim>\<open>Array(n).fill(0)\<close>, and the same with every cell mapped to a fresh row of zeros.\<close>

definition zeros :: "nat \<Rightarrow> vec" where
  "zeros n = replicate n (Fin 0)"

definition zero_matrix :: "nat \<Rightarrow> nat \<Rightarrow> matrix" where
  "zero_matrix r c = map (\<lambda>_. zeros c) (zeros r)"

section \<open>Chain builder\<close>

text \<open>
  \<^verbatim>\<open>Array(len)\<close> throws a RangeError unless \<open>len\<close> is an array length, an integer from 0 to
  4294967295.
\<close>

definition max_array_length :: int where
  "max_array_length = 4294967295"

definition array_length_ok :: "int \<Rightarrow> bool" where
  "array_length_ok len = (0 \<le> len \<and> len \<le> max_array_length)"

text \<open>
  \<^verbatim>\<open>generateInitialVector(N, n)\<close>, lines 83 to 89. \<open>N\<close> and \<open>n\<close> are integers; the index
  \<open>n\<close> is written only when it is in range.
\<close>

definition generateInitialVector :: "int \<Rightarrow> int \<Rightarrow> error + vec" where
  "generateInitialVector N n =
     (if \<not> array_length_ok (N + 1) then Inl RangeError
      else let vector = zeros (nat (N + 1))
           in if n \<ge> 0 \<and> n \<le> N then Inr (vector[nat n := Fin 1]) else Inr vector)"

text \<open>
  \<^verbatim>\<open>generateTransitionMatrix(N, p)\<close>, lines 62 to 78. The body of the loop over
  \<open>i = 0, \<dots>, N\<close> is \<open>transition_row\<close>; the two assignments of the else branch are made in
  the order of the source, and every index they write is inside its row.
\<close>

definition set_cell :: "matrix \<Rightarrow> nat \<Rightarrow> nat \<Rightarrow> jsnum \<Rightarrow> matrix" where
  "set_cell m i j x = m[i := (m ! i)[j := x]]"

definition transition_row :: "int \<Rightarrow> jsnum \<Rightarrow> jsnum \<Rightarrow> matrix \<Rightarrow> nat \<Rightarrow> matrix" where
  "transition_row N p q m i =
     (if i = 0 \<or> int i = N then set_cell m i i (Fin 1)
      else set_cell (set_cell m i (i + 1) p) i (i - 1) q)"

definition generateTransitionMatrix :: "int \<Rightarrow> jsnum \<Rightarrow> error + matrix" where
  "generateTransitionMatrix N p =
     (let size = N + 1 in
      if \<not> array_length_ok size then Inl RangeError
      else let m = zero_matrix (nat size) (nat size);
               q = jssub (Fin 1) p
           in Inr (foldl (transition_row N p q) m [0..<nat (N + 1)]))"

section \<open>Matrix algebra\<close>

text \<open>
  \<^verbatim>\<open>matrixMultiply(A, B)\<close>, lines 6 to 28. \<^verbatim>\<open>A[0].length\<close> and \<^verbatim>\<open>B[0].length\<close> throw a
  TypeError on an empty array, then the dimension check throws. The three nested loops
  run over the index ranges in order; \<open>mm_step\<close> is the assignment
  \<^verbatim>\<open>result[i][j] += A[i][k] * B[k][j]\<close>.
\<close>

definition mm_step :: "matrix \<Rightarrow> matrix \<Rightarrow> nat \<Rightarrow> nat \<Rightarrow> matrix \<Rightarrow> nat \<Rightarrow> matrix" where
  "mm_step A B i j result k =
     set_cell result i j (jsadd (result ! i ! j) (jsmul (elem (A ! i) k) (elem (B ! k) j)))"

definition matrixMultiply :: "matrix \<Rightarrow> matrix \<Rightarrow> error + matrix" where
  "matrixMultiply A B =
     (case A of [] \<Rightarrow> Inl TypeError
      | a0 # _ \<Rightarrow>
        (case B of [] \<Rightarrow> Inl TypeError
         | b0 # _ \<Rightarrow>
           let rowsA = length A; colsA = length a0; colsB = length b0 in
           if colsA \<noteq> length B then Inl Incompatible
           else Inr (foldl (\<lambda>result i.
                       foldl (\<lambda>result j.
                         foldl (mm_step A B i j) result [0..<colsA])
                       result [0..<colsB])
                     (zero_matrix rowsA colsB) [0..<rowsA])))"

text \<open>The identity matrix of \<^verbatim>\<open>matrixPower\<close>, lines 37 to 39.\<close>

definition identity :: "nat \<Rightarrow> matrix" where
  "identity n = map (\<lambda>i. map (\<lambda>j. if i = j then Fin 1 else Fin 0) [0..<n]) [0..<n]"

text \<open>
  The \<^verbatim>\<open>while (exp > 0)\<close> loop of \<^verbatim>\<open>matrixPower\<close>, lines 48 to 54. The loop does not end
  when the exponent is \<open>PInf\<close>, so the result is an option and \<open>None\<close> stands for a call that
  never returns.
\<close>

partial_function (option) power_loop ::
  "matrix \<Rightarrow> matrix \<Rightarrow> jsnum \<Rightarrow> (error + matrix) option" where
  "power_loop result base expo =
     (if jsgt expo (Fin 0) then
        (case (if jseq (jsmod expo (Fin 2)) (Fin 1) then matrixMultiply result base
               else Inr result) of
           Inl e \<Rightarrow> Some (Inl e)
         | Inr result' \<Rightarrow>
             (case matrixMultiply base base of
                Inl e \<Rightarrow> Some (Inl e)
              | Inr base' \<Rightarrow> power_loop result' base' (jsfloor (jsdiv expo (Fin 2)))))
      else Some (Inr result))"

text \<open>\<^verbatim>\<open>matrixPower(M, k)\<close>, lines 33 to 57; \<^verbatim>\<open>M.map(row => [...row])\<close> is the copy.\<close>

definition matrixPower :: "matrix \<Rightarrow> jsnum \<Rightarrow> (error + matrix) option" where
  "matrixPower M k =
     (let n = length M in
      if jseq k (Fin 0) then Some (Inr (identity n))
      else if jseq k (Fin 1) then Some (Inr M)
      else power_loop (identity n) (map (\<lambda>row. row) M) k)"

section \<open>Vector propagation\<close>

text \<open>A \<^verbatim>\<open>for\<close> loop over an index range whose body may throw.\<close>

fun for_each :: "nat list \<Rightarrow> ('s \<Rightarrow> nat \<Rightarrow> error + 's) \<Rightarrow> 's \<Rightarrow> error + 's" where
  "for_each [] body s = Inr s"
| "for_each (i # is) body s =
     (case body s i of Inl e \<Rightarrow> Inl e | Inr s' \<Rightarrow> for_each is body s')"

text \<open>
  \<^verbatim>\<open>vectorMatrixMultiply(v, M)\<close>, lines 94 to 103. There is no dimension check:
  \<^verbatim>\<open>M[0].length\<close> throws a TypeError when \<open>M\<close> is empty, and \<^verbatim>\<open>M[i][j]\<close> throws one when
  \<open>v\<close> is longer than \<open>M\<close>. \<open>vm_step\<close> is \<^verbatim>\<open>result[j] += v[i] * M[i][j]\<close>.
\<close>

definition vm_step :: "vec \<Rightarrow> matrix \<Rightarrow> nat \<Rightarrow> vec \<Rightarrow> nat \<Rightarrow> error + vec" where
  "vm_step v M j result i =
     (if i < length M
      then Inr (result[j := jsadd (result ! j) (jsmul (v ! i) (elem (M ! i) j))])
      else Inl TypeError)"

definition vectorMatrixMultiply :: "vec \<Rightarrow> matrix \<Rightarrow> error + vec" where
  "vectorMatrixMultiply v M =
     (case M of [] \<Rightarrow> Inl TypeError
      | m0 # _ \<Rightarrow>
          for_each [0..<length m0]
            (\<lambda>result j. for_each [0..<length v] (vm_step v M j) result)
            (zeros (length m0)))"

section \<open>Simulation session\<close>

text \<open>The module-level variables of lines 112 to 117.\<close>

record session =
  N_global :: int
  n_global :: int
  p_global :: jsnum
  currentStep :: jsnum
  transitionMatrix :: matrix
  currentVector :: vec

text \<open>
  Lines 154 to 157 of \<^verbatim>\<open>advanceSteps\<close>: the power of the matrix, then one product with the
  vector.
\<close>

definition advanceBySteps :: "vec \<Rightarrow> matrix \<Rightarrow> jsnum \<Rightarrow> (error + vec) option" where
  "advanceBySteps v M k =
     (case matrixPower M k of
        None \<Rightarrow> None
      | Some (Inl e) \<Rightarrow> Some (Inl e)
      | Some (Inr Pk) \<Rightarrow> Some (vectorMatrixMultiply v Pk))"

text \<open>
  \<^verbatim>\<open>advanceSteps(k)\<close>, lines 150 to 162, on the session it reads and writes. The calls that
  redraw the page do not touch the session and are left out.
\<close>

definition advanceSteps :: "jsnum \<Rightarrow> session \<Rightarrow> (error + session) option" where
  "advanceSteps k0 s =
     (let k = (if jslt k0 (Fin 1) \<or> isNaN k0 then Fin 1 else k0) in
      case advanceBySteps (currentVector s) (transitionMatrix s) k of
        None \<Rightarrow> None
      | Some (Inl e) \<Rightarrow> Some (Inl e)
      | Some (Inr v') \<Rightarrow>
          Some (Inr (s\<lparr>currentVector := v', currentStep := jsadd (currentStep s) k\<rparr>)))"

section \<open>The matrix operations on a store\<close>

text \<open>
  The model above passes arrays by value. To say which arrays a call writes, the two matrix
  operations are modelled a second time on an explicit store: an array of numbers lives at
  an address of \<open>row_store\<close>, and a matrix is an array of such addresses at an address of
  \<open>mat_store\<close>, so two matrices (or two rows of one matrix) may share a row. A new array
  is appended to its store, which gives it an address that no older reference holds.
\<close>

record heap =
  row_store :: "vec list"
  mat_store :: "nat list list"

definition new_row :: "vec \<Rightarrow> heap \<Rightarrow> nat \<times> heap" where
  "new_row xs h = (length (row_store h), h\<lparr>row_store := row_store h @ [xs]\<rparr>)"

fun new_rows :: "matrix \<Rightarrow> heap \<Rightarrow> nat list \<times> heap" where
  "new_rows [] h = ([], h)"
| "new_rows (xs # M) h =
     (let (r, h1) = new_row xs h; (rs, h2) = new_rows M h1 in (r # rs, h2))"

text \<open>
  A fresh matrix with the given contents: fresh rows, then the fresh array that holds their
  addresses. This is how \<^verbatim>\<open>Array(r).fill(0).map(() => Array(c).fill(0))\<close>, the identity
  matrix and the copy \<^verbatim>\<open>M.map(row => [...row])\<close> are allocated.
\<close>

definition new_matrix :: "matrix \<Rightarrow> heap \<Rightarrow> nat \<times> heap" where
  "new_matrix M h =
     (let (rs, h1) = new_rows M h
      in (length (mat_store h1), h1\<lparr>mat_store := mat_store h1 @ [rs]\<rparr>))"

text \<open>The value of the matrix at address \<open>m\<close>.\<close>

definition load :: "heap \<Rightarrow> nat \<Rightarrow> matrix" where
  "load h m = map (\<lambda>r. row_store h ! r) (mat_store h ! m)"

text \<open>A reference to a matrix is valid when the matrix and all its rows are allocated.\<close>

definition valid :: "heap \<Rightarrow> nat \<Rightarrow> bool" where
  "valid h m =
     (m < length (mat_store h) \<and> list_all (\<lambda>r. r < length (row_store h)) (mat_store h ! m))"

text \<open>
  \<^verbatim>\<open>result[i][j] += A[i][k] * B[k][j]\<close> on the store: the three rows are looked up through
  the matrices at the moment of the assignment, and the one write goes to the row that
  \<^verbatim>\<open>result[i]\<close> refers to.
\<close>

definition mm_step_h :: "nat \<Rightarrow> nat \<Rightarrow> nat \<Rightarrow> nat \<Rightarrow> nat \<Rightarrow> heap \<Rightarrow> nat \<Rightarrow> heap" where
  "mm_step_h a b res i j h k =
     (let r = mat_store h ! res ! i;
          x = jsadd (row_store h ! r ! j)
                (jsmul (elem (row_store h ! (mat_store h ! a ! i)) k)
                       (elem (row_store h ! (mat_store h ! b ! k)) j))
      in h\<lparr>row_store := (row_store h)[r := (row_store h ! r)[j := x]]\<rparr>)"

text \<open>\<^verbatim>\<open>matrixMultiply\<close> on the store; it returns the address of the result.\<close>

definition matrixMultiply_h :: "nat \<Rightarrow> nat \<Rightarrow> heap \<Rightarrow> (error + nat) \<times> heap" where
  "matrixMultiply_h a b h =
     (case mat_store h ! a of [] \<Rightarrow> (Inl TypeError, h)
      | a0 # _ \<Rightarrow>
        (case mat_store h ! b of [] \<Rightarrow> (Inl TypeError, h)
         | b0 # _ \<Rightarrow>
           let rowsA = length (mat_store h ! a);
               colsA = length (row_store h ! a0);
               colsB = length (row_store h ! b0) in
           if colsA \<noteq> length (mat_store h ! b) then (Inl Incompatible, h)
           else let (res, h1) = new_matrix (zero_matrix rowsA colsB) h in
             (Inr res,
              foldl (\<lambda>h i.
                foldl (\<lambda>h j.
                  foldl (mm_step_h a b res i j) h [0..<colsA])
                h [0..<colsB])
              h1 [0..<rowsA])))"

text \<open>The loop of \<^verbatim>\<open>matrixPower\<close> on the store: \<open>result\<close> and \<open>base\<close> are addresses.\<close>

partial_function (option) power_loop_h ::
  "nat \<Rightarrow> nat \<Rightarrow> jsnum \<Rightarrow> heap \<Rightarrow> ((error + nat) \<times> heap) option" where
  "power_loop_h result base expo h =
     (if jsgt expo (Fin 0) then
        (case (if jseq (jsmod expo (Fin 2)) (Fin 1) then matrixMultiply_h result base h
               else (Inr result, h)) of
           (Inl e, h1) \<Rightarrow> Some (Inl e, h1)
         | (Inr result', h1) \<Rightarrow>
             (case matrixMultiply_h base base h1 of
                (Inl e, h2) \<Rightarrow> Some (Inl e, h2)
              | (Inr base', h2) \<Rightarrow>
                  power_loop_h result' base' (jsfloor (jsdiv expo (Fin 2))) h2))
      else Some (Inr result, h))"

text \<open>
  \<^verbatim>\<open>matrixPower\<close> on the store. For \<open>k = 1\<close> the source returns \<open>M\<close> itself, so the result
  is the address \<open>m\<close> that the caller passed.
\<close>

definition matrixPower_h :: "nat \<Rightarrow> jsnum \<Rightarrow> heap \<Rightarrow> ((error + nat) \<times> heap) option" where
  "matrixPower_h m k h =
     (let n = length (mat_store h ! m);
          (ident, h1) = new_matrix (identity n) h in
      if jseq k (Fin 0) then Some (Inr ident, h1)
      else if jseq k (Fin 1) then Some (Inr m, h1)
      else let (base, h2) = new_matrix (load h1 m) h1
           in power_loop_h ident base k h2)"

text \<open>Every array of \<open>h\<close> is still there in \<open>h'\<close>, with the contents it had.\<close>

definition unchanged :: "heap \<Rightarrow> heap \<Rightarrow> bool" where
  "unchanged h h' =
     (take (length (row_store h)) (row_store h') = row_store h
      \<and> take (length (mat_store h)) (mat_store h') = mat_store h)"

section \<open>Notions of the specification\<close>

text \<open>
  A vector of \<open>n\<close> finite numbers, and a matrix of \<open>r\<close> rows that are vectors of \<open>c\<close> finite
  numbers: the matrices and distribution vectors of the specification.
\<close>

fun is_fin :: "jsnum \<Rightarrow> bool" where
  "is_fin (Fin _) = True"
| "is_fin _ = False"

definition finite_vec :: "nat \<Rightarrow> vec \<Rightarrow> bool" where
  "finite_vec n v = (length v = n \<and> list_all is_fin v)"

definition finite_matrix :: "nat \<Rightarrow> nat \<Rightarrow> matrix \<Rightarrow> bool" where
  "finite_matrix r c M = (length M = r \<and> list_all (finite_vec c) M)"

text \<open>A matrix of \<open>r\<close> rows of length \<open>c\<close>, whatever its entries are.\<close>

definition shape :: "nat \<Rightarrow> nat \<Rightarrow> matrix \<Rightarrow> bool" where
  "shape r c M = (length M = r \<and> list_all (\<lambda>row. length row = c) M)"

text \<open>The sum of the entries of a vector, added up from the left.\<close>

definition total :: "vec \<Rightarrow> jsnum" where
  "total v = foldl jsadd (Fin 0) v"

text \<open>The vector of length \<open>n\<close> with a one at index \<open>i\<close> and zeros elsewhere.\<close>

definition one_hot :: "nat \<Rightarrow> nat \<Rightarrow> vec" where
  "one_hot n i = map (\<lambda>j. if j = i then Fin 1 else Fin 0) [0..<n]"

definition nonzero_count :: "vec \<Rightarrow> nat" where
  "nonzero_count row = length (filter (\<lambda>x. x \<noteq> Fin 0) row)"

text \<open>
  The slow reference of the specification for advancing by \<open>k\<close> steps:
  \<^verbatim>\<open>vectorMatrixMultiply\<close> applied \<open>k\<close> times in sequence.
\<close>

fun advance_seq :: "nat \<Rightarrow> vec \<Rightarrow> matrix \<Rightarrow> error + vec" where
  "advance_seq 0 v M = Inr v"
| "advance_seq (Suc k) v M =
     (case vectorMatrixMultiply v M of Inl e \<Rightarrow> Inl e | Inr v' \<Rightarrow> advance_seq k v' M)"

text \<open>
  A session is ready when it holds what a reset with \<open>N \<ge> 1\<close> and a finite \<open>p\<close> stores
  and what advancing keeps: the transition matrix built from \<open>N\<close> and \<open>p\<close>, a vector of
  \<open>N + 1\<close> finite numbers and a finite step count.
\<close>

definition ready :: "session \<Rightarrow> bool" where
  "ready s =
     (1 \<le> N_global s \<and> is_fin (p_global s)
      \<and> generateTransitionMatrix (N_global s) (p_global s) = Inr (transitionMatrix s)
      \<and> finite_vec (nat (N_global s + 1)) (currentVector s)
      \<and> is_fin (currentStep s))"

text \<open>
  The exponent that the loop of \<^verbatim>\<open>matrixPower\<close> realises for a finite \<open>k\<close>: nothing for
  \<open>k \<le> 0\<close>, \<open>k\<close> itself for a natural number, and for a fractional \<open>k\<close> the bits of
  \<open>\<lfloor>k / 2\<rfloor>\<close> shifted up by one, since \<^verbatim>\<open>k % 2\<close> is not 1 in the first round.
\<close>

definition eff :: "real \<Rightarrow> nat" where
  "eff x = (if x \<le> 0 then 0 else if x = of_int \<lfloor>x\<rfloor> then nat \<lfloor>x\<rfloor> else 2 * nat \<lfloor>x / 2\<rfloor>)"

section \<open>Matrices as functions\<close>

text \<open>
  For the algebra, a matrix of finite numbers is read as a function from indices to reals
  that is zero outside the matrix (\<open>ent\<close>, \<open>vent\<close>), and written back by \<open>mk\<close> and \<open>mkv\<close>.
  The product, the identity and the powers are the textbook ones.
\<close>

fun val :: "jsnum \<Rightarrow> real" where
  "val (Fin a) = a"
| "val _ = 0"

definition vent :: "vec \<Rightarrow> nat \<Rightarrow> real" where
  "vent v i = (if i < length v then val (v ! i) else 0)"

definition ent :: "matrix \<Rightarrow> nat \<Rightarrow> nat \<Rightarrow> real" where
  "ent M i j = (if i < length M then vent (M ! i) j else 0)"

definition mkv :: "nat \<Rightarrow> (nat \<Rightarrow> real) \<Rightarrow> vec" where
  "mkv n f = map (\<lambda>j. Fin (f j)) [0..<n]"

definition mk :: "nat \<Rightarrow> nat \<Rightarrow> (nat \<Rightarrow> nat \<Rightarrow> real) \<Rightarrow> matrix" where
  "mk r c f = map (\<lambda>i. mkv c (f i)) [0..<r]"

definition fmul :: "nat \<Rightarrow> (nat \<Rightarrow> nat \<Rightarrow> real) \<Rightarrow> (nat \<Rightarrow> nat \<Rightarrow> real) \<Rightarrow> nat \<Rightarrow> nat \<Rightarrow> real" where
  "fmul n f g = (\<lambda>i j. \<Sum>k<n. f i k * g k j)"

definition vmul :: "nat \<Rightarrow> (nat \<Rightarrow> real) \<Rightarrow> (nat \<Rightarrow> nat \<Rightarrow> real) \<Rightarrow> nat \<Rightarrow> real" where
  "vmul n x g = (\<lambda>j. \<Sum>i<n. x i * g i j)"

definition fone :: "nat \<Rightarrow> nat \<Rightarrow> nat \<Rightarrow> real" where
  "fone n = (\<lambda>i j. if i = j \<and> i < n then 1 else 0)"

fun fpow :: "nat \<Rightarrow> (nat \<Rightarrow> nat \<Rightarrow> real) \<Rightarrow> nat \<Rightarrow> nat \<Rightarrow> nat \<Rightarrow> real" where
  "fpow n f 0 = fone n"
| "fpow n f (Suc k) = fmul n (fpow n f k) f"

definition carrier :: "nat \<Rightarrow> (nat \<Rightarrow> nat \<Rightarrow> real) \<Rightarrow> bool" where
  "carrier n f = (\<forall>i j. n \<le> i \<or> n \<le> j \<longrightarrow> f i j = 0)"

text \<open>What the innermost loops of the two products leave in one cell.\<close>

definition dot :: "matrix \<Rightarrow> matrix \<Rightarrow> nat \<Rightarrow> nat \<Rightarrow> nat \<Rightarrow> jsnum \<Rightarrow> jsnum" where
  "dot A B i j c x = foldl (\<lambda>acc k. jsadd acc (jsmul (elem (A ! i) k) (elem (B ! k) j))) x [0..<c]"

definition vdot :: "vec \<Rightarrow> matrix \<Rightarrow> nat \<Rightarrow> nat \<Rightarrow> jsnum \<Rightarrow> jsnum" where
  "vdot v M j n x = foldl (\<lambda>acc i. jsadd acc (jsmul (v ! i) (elem (M ! i) j))) x [0..<n]"

text \<open>Row \<open>i\<close> of the transition matrix as the loop body leaves it, and its entries.\<close>

definition trow :: "int \<Rightarrow> jsnum \<Rightarrow> jsnum \<Rightarrow> nat \<Rightarrow> nat \<Rightarrow> vec" where
  "trow N p q n i =
     (if i = 0 \<or> int i = N then (zeros n)[i := Fin 1]
      else ((zeros n)[i + 1 := p])[i - 1 := q])"

definition transition_entry :: "nat \<Rightarrow> real \<Rightarrow> nat \<Rightarrow> nat \<Rightarrow> real" where
  "transition_entry N p i j =
     (if i = 0 \<or> i = N then (if j = i then 1 else 0)
      else if j + 1 = i then 1 - p else if j = i + 1 then p else 0)"

section \<open>Auxiliary lemmas\<close>

lemma set_cell_nth: "i < length m \<Longrightarrow> j < length (m ! i) \<Longrightarrow> set_cell m i j x ! i ! j = x"
  by (simp add: set_cell_def)

lemma set_cell_twice: "set_cell (set_cell m i j x) i j y = set_cell m i j y"
  by (cases "i < length m") (simp_all add: set_cell_def list_update_beyond)

lemma mm_k_loop:
  assumes "i < length res" "j < length (res ! i)"
  shows "foldl (mm_step A B i j) res [0..<c] = set_cell res i j (dot A B i j c (res ! i ! j))"
proof (induction c)
  case 0
  show ?case using assms by (simp add: dot_def set_cell_def)
next
  case (Suc c)
  have "foldl (mm_step A B i j) res [0..<Suc c]
      = mm_step A B i j (set_cell res i j (dot A B i j c (res ! i ! j))) c"
    using Suc by simp
  also have "\<dots> = set_cell res i j (dot A B i j (Suc c) (res ! i ! j))"
    using assms by (simp add: mm_step_def set_cell_nth set_cell_twice dot_def)
  finally show ?case .
qed

lemma mm_j_loop:
  assumes "i < length res" "m \<le> length (res ! i)"
  shows "foldl (\<lambda>result j. foldl (mm_step A B i j) result [0..<c]) res [0..<m]
       = res[i := map (\<lambda>j. dot A B i j c (res ! i ! j)) [0..<m] @ drop m (res ! i)]"
  using assms(2)
proof (induction m)
  case 0
  show ?case by simp
next
  case (Suc m)
  let ?row = "map (\<lambda>j. dot A B i j c (res ! i ! j)) [0..<m] @ drop m (res ! i)"
  have len: "length ?row = length (res ! i)" using Suc.prems by simp
  have at: "?row ! m = res ! i ! m" using Suc.prems by (simp add: nth_append)
  have "foldl (\<lambda>result j. foldl (mm_step A B i j) result [0..<c]) res [0..<Suc m]
      = foldl (mm_step A B i m) (res[i := ?row]) [0..<c]"
    using Suc by simp
  also have "\<dots> = set_cell (res[i := ?row]) i m (dot A B i m c (res ! i ! m))"
    using assms(1) Suc.prems len at by (subst mm_k_loop) simp_all
  also have "\<dots> = res[i := ?row[m := dot A B i m c (res ! i ! m)]]"
    using assms(1) by (simp add: set_cell_def)
  also have "?row[m := dot A B i m c (res ! i ! m)]
      = map (\<lambda>j. dot A B i j c (res ! i ! j)) [0..<Suc m] @ drop (Suc m) (res ! i)"
    using Suc.prems
    by (intro nth_equalityI) (auto simp: nth_append nth_list_update less_Suc_eq)
  finally show ?case .
qed

lemma mm_i_loop:
  assumes "m \<le> r"
  shows "foldl (\<lambda>result i. foldl (\<lambda>result j. foldl (mm_step A B i j) result [0..<c]) result [0..<cB])
           (zero_matrix r cB) [0..<m]
       = map (\<lambda>i. map (\<lambda>j. dot A B i j c (Fin 0)) [0..<cB]) [0..<m] @ replicate (r - m) (zeros cB)"
  using assms
proof (induction m)
  case 0
  show ?case by (simp add: zero_matrix_def zeros_def map_replicate_const)
next
  case (Suc m)
  let ?res = "map (\<lambda>i. map (\<lambda>j. dot A B i j c (Fin 0)) [0..<cB]) [0..<m] @ replicate (r - m) (zeros cB)"
  have rowm: "?res ! m = zeros cB" using Suc.prems by (simp add: nth_append)
  have "foldl (\<lambda>result i. foldl (\<lambda>result j. foldl (mm_step A B i j) result [0..<c]) result [0..<cB])
           (zero_matrix r cB) [0..<Suc m]
      = foldl (\<lambda>result j. foldl (mm_step A B m j) result [0..<c]) ?res [0..<cB]"
    using Suc by simp
  also have "\<dots> = ?res[m := map (\<lambda>j. dot A B m j c (?res ! m ! j)) [0..<cB] @ drop cB (?res ! m)]"
    using Suc.prems by (subst mm_j_loop) (simp_all add: rowm, simp_all add: zeros_def)
  also have "map (\<lambda>j. dot A B m j c (?res ! m ! j)) [0..<cB] @ drop cB (?res ! m)
      = map (\<lambda>j. dot A B m j c (Fin 0)) [0..<cB]"
    unfolding rowm by (simp add: zeros_def cong: map_cong)
  also have "?res[m := map (\<lambda>j. dot A B m j c (Fin 0)) [0..<cB]]
     = map (\<lambda>i. map (\<lambda>j. dot A B i j c (Fin 0)) [0..<cB]) [0..<Suc m] @ replicate (r - Suc m) (zeros cB)"
    using Suc.prems
    by (intro nth_equalityI) (auto simp: nth_append nth_list_update less_Suc_eq)
  finally show ?case .
qed

lemma matrixMultiply_closed:
  assumes "A = a0 # A'" "B = b0 # B'" "length a0 = length B"
  shows "matrixMultiply A B
       = Inr (map (\<lambda>i. map (\<lambda>j. dot A B i j (length a0) (Fin 0)) [0..<length b0]) [0..<length A])"
  using assms mm_i_loop[of "length A" "length A" A B "length a0" "length b0"]
  by (simp add: matrixMultiply_def Let_def del: upt_Suc)

lemma for_each_total:
  assumes "\<And>s i. i \<in> set xs \<Longrightarrow> body s i = Inr (f s i)"
  shows "for_each xs body s = Inr (foldl f s xs)"
  using assms by (induction xs arbitrary: s) simp_all

lemma vm_i_loop:
  assumes "j < length res"
  shows "foldl (\<lambda>result i. result[j := jsadd (result ! j) (jsmul (v ! i) (elem (M ! i) j))]) res [0..<n]
       = res[j := vdot v M j n (res ! j)]"
proof (induction n)
  case 0
  show ?case by (simp add: vdot_def)
next
  case (Suc n)
  show ?case using assms by (simp add: Suc vdot_def)
qed

lemma vectorMatrixMultiply_closed:
  assumes "M = m0 # M'" "length v \<le> length M"
  shows "vectorMatrixMultiply v M
       = Inr (map (\<lambda>j. vdot v M j (length v) (Fin 0)) [0..<length m0])"
proof -
  have inner: "for_each [0..<length v] (vm_step v M j) res = Inr (res[j := vdot v M j (length v) (res ! j)])"
    if "j < length res" for j res
  proof -
    have "for_each [0..<length v] (vm_step v M j) res
        = Inr (foldl (\<lambda>result i. result[j := jsadd (result ! j) (jsmul (v ! i) (elem (M ! i) j))]) res [0..<length v])"
      using assms(2) by (intro for_each_total) (simp add: vm_step_def)
    then show ?thesis using that by (simp add: vm_i_loop)
  qed
  have outer: "for_each [0..<m] (\<lambda>result j. for_each [0..<length v] (vm_step v M j) result) res
      = Inr (map (\<lambda>j. vdot v M j (length v) (res ! j)) [0..<m] @ drop m res)"
    if "m \<le> length res" for m res
    using that
  proof (induction m)
    case 0
    show ?case by simp
  next
    case (Suc m)
    have split: "for_each (xs @ [x]) body s = (case for_each xs body s of Inl e \<Rightarrow> Inl e | Inr s' \<Rightarrow> body s' x)"
      for xs x and body :: "vec \<Rightarrow> nat \<Rightarrow> error + vec" and s
      by (induction xs arbitrary: s) (auto split: sum.splits)
    let ?r = "map (\<lambda>j. vdot v M j (length v) (res ! j)) [0..<m] @ drop m res"
    have "for_each [0..<Suc m] (\<lambda>result j. for_each [0..<length v] (vm_step v M j) result) res
        = for_each [0..<length v] (vm_step v M m) ?r"
      using Suc by (simp add: split)
    also have "\<dots> = Inr (?r[m := vdot v M m (length v) (?r ! m)])"
      using Suc.prems by (intro inner) simp
    also have "?r[m := vdot v M m (length v) (?r ! m)]
        = map (\<lambda>j. vdot v M j (length v) (res ! j)) [0..<Suc m] @ drop (Suc m) res"
      using Suc.prems
      by (intro nth_equalityI) (auto simp: nth_append nth_list_update less_Suc_eq)
    finally show ?case .
  qed
  show ?thesis
    using assms(1) outer[of "length m0" "zeros (length m0)"]
    by (simp add: vectorMatrixMultiply_def zeros_def cong: map_cong)
qed

lemma is_fin_val: "is_fin x \<Longrightarrow> x = Fin (val x)"
  by (cases x) simp_all

lemma finite_vec_nth: "finite_vec n v \<Longrightarrow> i < n \<Longrightarrow> v ! i = Fin (vent v i)"
  using is_fin_val[of "v ! i"] by (simp add: finite_vec_def vent_def list_all_length)

lemma finite_vec_elem: "finite_vec n v \<Longrightarrow> i < n \<Longrightarrow> elem v i = Fin (vent v i)"
  by (simp add: elem_def finite_vec_nth) (simp add: finite_vec_def)

lemma finite_matrix_row: "finite_matrix r c M \<Longrightarrow> i < r \<Longrightarrow> finite_vec c (M ! i)"
  by (simp add: finite_matrix_def list_all_length)

lemma finite_matrix_elem:
  "finite_matrix r c M \<Longrightarrow> i < r \<Longrightarrow> j < c \<Longrightarrow> elem (M ! i) j = Fin (ent M i j)"
  using finite_vec_elem[OF finite_matrix_row, of r c M i j]
  by (simp add: ent_def finite_matrix_def)

lemma finite_vec_mkv: "finite_vec n (mkv n f)"
  by (simp add: finite_vec_def mkv_def list_all_length)

lemma finite_matrix_mk: "finite_matrix r c (mk r c f)"
  by (simp add: finite_matrix_def mk_def list_all_length finite_vec_mkv)

lemma vent_mkv: "vent (mkv n f) i = (if i < n then f i else 0)"
  by (simp add: vent_def mkv_def)

lemma ent_mk: "ent (mk r c f) i j = (if i < r \<and> j < c then f i j else 0)"
  by (simp add: ent_def mk_def vent_mkv)

lemma mkv_vent: "finite_vec n v \<Longrightarrow> mkv n (vent v) = v"
  by (intro nth_equalityI) (simp_all add: mkv_def finite_vec_nth, simp add: finite_vec_def)

lemma mk_ent:
  assumes fm: "finite_matrix r c M"
  shows "mk r c (ent M) = M"
proof (rule nth_equalityI)
  show "length (mk r c (ent M)) = length M" using fm by (simp add: mk_def finite_matrix_def)
next
  fix i assume "i < length (mk r c (ent M))"
  then have i: "i < r" by (simp add: mk_def)
  have "ent M i = vent (M ! i)" using fm i by (auto simp: ent_def finite_matrix_def)
  then show "mk r c (ent M) ! i = M ! i"
    using i mkv_vent[OF finite_matrix_row[OF fm i]] by (simp add: mk_def)
qed

lemma mkv_cong: "(\<And>j. j < n \<Longrightarrow> f j = g j) \<Longrightarrow> mkv n f = mkv n g"
  by (simp add: mkv_def)

lemma mk_cong: "(\<And>i j. i < r \<Longrightarrow> j < c \<Longrightarrow> f i j = g i j) \<Longrightarrow> mk r c f = mk r c g"
  by (auto simp: mk_def intro!: mkv_cong)

lemma dot_fin:
  assumes "finite_matrix r c A" "finite_matrix c cB B" "i < r" "j < cB" "n \<le> c"
  shows "dot A B i j n (Fin x) = Fin (x + (\<Sum>k<n. ent A i k * ent B k j))"
  using assms(5)
proof (induction n)
  case 0
  show ?case by (simp add: dot_def)
next
  case (Suc n)
  have "dot A B i j (Suc n) (Fin x)
      = jsadd (dot A B i j n (Fin x)) (jsmul (elem (A ! i) n) (elem (B ! n) j))"
    by (simp add: dot_def)
  also have "\<dots> = Fin (x + (\<Sum>k<Suc n. ent A i k * ent B k j))"
    using Suc assms finite_matrix_elem[of r c A i n] finite_matrix_elem[of c cB B n j]
    by simp
  finally show ?case .
qed

lemma matrixMultiply_fin:
  assumes A: "finite_matrix r c A" and B: "finite_matrix c cB B" and "0 < r" "0 < c"
  shows "matrixMultiply A B = Inr (mk r cB (fmul c (ent A) (ent B)))"
proof -
  obtain a0 A' where A': "A = a0 # A'" using A \<open>0 < r\<close> by (cases A) (auto simp: finite_matrix_def)
  obtain b0 B' where B': "B = b0 # B'" using B \<open>0 < c\<close> by (cases B) (auto simp: finite_matrix_def)
  have la: "length a0 = c" using A A' by (simp add: finite_matrix_def finite_vec_def)
  have lb: "length b0 = cB" using B B' by (simp add: finite_matrix_def finite_vec_def)
  have lA: "length A = r" and lB: "length B = c" using A B by (simp_all add: finite_matrix_def)
  have "matrixMultiply A B
      = Inr (map (\<lambda>i. map (\<lambda>j. dot A B i j c (Fin 0)) [0..<cB]) [0..<r])"
    using matrixMultiply_closed[OF A' B'] la lb lA lB by simp
  also have "map (\<lambda>i. map (\<lambda>j. dot A B i j c (Fin 0)) [0..<cB]) [0..<r]
      = mk r cB (fmul c (ent A) (ent B))"
    using dot_fin[OF A B, of _ _ c 0]
    by (simp add: mk_def mkv_def fmul_def cong: map_cong)
  finally show ?thesis .
qed

lemma vdot_fin:
  assumes "finite_vec r v" "finite_matrix r c M" "j < c" "n \<le> r"
  shows "vdot v M j n (Fin x) = Fin (x + (\<Sum>i<n. vent v i * ent M i j))"
  using assms(4)
proof (induction n)
  case 0
  show ?case by (simp add: vdot_def)
next
  case (Suc n)
  have "vdot v M j (Suc n) (Fin x)
      = jsadd (vdot v M j n (Fin x)) (jsmul (v ! n) (elem (M ! n) j))"
    by (simp add: vdot_def)
  also have "\<dots> = Fin (x + (\<Sum>i<Suc n. vent v i * ent M i j))"
    using Suc assms finite_vec_nth[of r v n] finite_matrix_elem[of r c M n j]
    by simp
  finally show ?case .
qed

lemma vectorMatrixMultiply_fin:
  assumes v: "finite_vec r v" and M: "finite_matrix r c M" and "0 < r"
  shows "vectorMatrixMultiply v M = Inr (mkv c (vmul r (vent v) (ent M)))"
proof -
  obtain m0 M' where M': "M = m0 # M'" using M \<open>0 < r\<close> by (cases M) (auto simp: finite_matrix_def)
  have lm: "length m0 = c" using M M' by (simp add: finite_matrix_def finite_vec_def)
  have lv: "length v = r" and lM: "length M = r"
    using v M by (simp_all add: finite_vec_def finite_matrix_def)
  have "vectorMatrixMultiply v M = Inr (map (\<lambda>j. vdot v M j r (Fin 0)) [0..<c])"
    using vectorMatrixMultiply_closed[OF M', of v] lm lv lM by simp
  also have "map (\<lambda>j. vdot v M j r (Fin 0)) [0..<c] = mkv c (vmul r (vent v) (ent M))"
    using vdot_fin[OF v M, of _ r 0] by (simp add: mkv_def vmul_def cong: map_cong)
  finally show ?thesis .
qed

lemma carrier_ent: "finite_matrix n n M \<Longrightarrow> carrier n (ent M)"
  by (auto simp: carrier_def ent_def vent_def finite_matrix_def finite_vec_def list_all_length)

lemma carrier_fone: "carrier n (fone n)"
  by (auto simp: carrier_def fone_def)

lemma carrier_fmul: "carrier n f \<Longrightarrow> carrier n g \<Longrightarrow> carrier n (fmul n f g)"
  by (auto simp: carrier_def fmul_def)

lemma carrier_fpow: "carrier n f \<Longrightarrow> carrier n (fpow n f k)"
  by (induction k) (simp_all add: carrier_fone carrier_fmul)

lemma ent_mk_carrier: "carrier n f \<Longrightarrow> ent (mk n n f) = f"
  by (rule ext, rule ext) (auto simp: ent_mk carrier_def)

lemma fmul_assoc: "fmul n (fmul n f g) h = fmul n f (fmul n g h)"
proof (rule ext, rule ext)
  fix i j
  have "fmul n (fmul n f g) h i j = (\<Sum>k<n. \<Sum>l<n. f i l * g l k * h k j)"
    by (simp add: fmul_def sum_distrib_right)
  also have "\<dots> = (\<Sum>l<n. \<Sum>k<n. f i l * g l k * h k j)"
    by (rule sum.swap)
  also have "\<dots> = fmul n f (fmul n g h) i j"
    by (simp add: fmul_def sum_distrib_left mult.assoc)
  finally show "fmul n (fmul n f g) h i j = fmul n f (fmul n g h) i j" .
qed

lemma fmul_fone_right: "carrier n f \<Longrightarrow> fmul n f (fone n) = f"
proof (rule ext, rule ext)
  fix i j assume c: "carrier n f"
  have "fmul n f (fone n) i j = (\<Sum>k<n. if k = j then f i k else 0)"
    unfolding fmul_def by (rule sum.cong) (auto simp: fone_def)
  also have "\<dots> = (if j < n then f i j else 0)"
    by (simp add: sum.delta)
  also have "\<dots> = f i j" using c by (simp add: carrier_def)
  finally show "fmul n f (fone n) i j = f i j" .
qed

lemma fmul_fone_left: "carrier n f \<Longrightarrow> fmul n (fone n) f = f"
proof (rule ext, rule ext)
  fix i j assume c: "carrier n f"
  have "fmul n (fone n) f i j = (\<Sum>k<n. if k = i then f k j else 0)"
    unfolding fmul_def by (rule sum.cong) (auto simp: fone_def)
  also have "\<dots> = (if i < n then f i j else 0)"
    by (simp add: sum.delta)
  also have "\<dots> = f i j" using c by (simp add: carrier_def)
  finally show "fmul n (fone n) f i j = f i j" .
qed

lemma fpow_add:
  "carrier n f \<Longrightarrow> fpow n f (a + b) = fmul n (fpow n f a) (fpow n f b)"
  by (induction b) (simp_all add: fmul_fone_right carrier_fpow fmul_assoc)

lemma fpow_one: "carrier n f \<Longrightarrow> fpow n f (Suc 0) = f"
  by (simp add: fmul_fone_left)

lemma fpow_square: "carrier n f \<Longrightarrow> fpow n (fmul n f f) m = fpow n f (2 * m)"
proof (induction m)
  case 0
  show ?case by simp
next
  case (Suc m)
  have "fpow n f (2 * Suc m) = fmul n (fpow n f (2 * m)) (fpow n f 2)"
    using fpow_add[OF Suc.prems, of "2 * m" 2] by simp
  also have "fpow n f 2 = fmul n f f"
    using Suc.prems by (simp add: numeral_2_eq_2 fmul_fone_left)
  finally show ?case using Suc by simp
qed

lemma identity_mk: "identity n = mk n n (fone n)"
  by (simp add: identity_def mk_def mkv_def fone_def)

lemma half_of_nat: "\<lfloor>real e / 2\<rfloor> = int (e div 2)"
  using floor_divide_of_nat_eq[of e 2, where ?'a = real] by simp

lemma mod2_of_nat: "jsmod (Fin (real e)) (Fin 2) = Fin (real (e mod 2))"
proof -
  have "real e = real (2 * (e div 2) + e mod 2)" by simp
  then have "real e - 2 * real (e div 2) = real (e mod 2)"
    by (simp only: of_nat_add of_nat_mult)
  then show ?thesis by (simp add: trunc_def half_of_nat)
qed

lemma power_loop_nat:
  assumes "0 < n"
  shows "carrier n R \<Longrightarrow> carrier n B \<Longrightarrow>
         power_loop (mk n n R) (mk n n B) (Fin (real e))
       = Some (Inr (mk n n (fmul n R (fpow n B e))))"
proof (induction e arbitrary: R B rule: less_induct)
  case (less e)
  note cR = less.prems(1) and cB = less.prems(2)
  show ?case
  proof (cases "e = 0")
    case True
    then show ?thesis
      using cR by (subst power_loop.simps) (simp add: jsgt_def fmul_fone_right)
  next
    case False
    then have pos: "jsgt (Fin (real e)) (Fin 0)" by (simp add: jsgt_def)
    have sq: "matrixMultiply (mk n n B) (mk n n B) = Inr (mk n n (fmul n B B))"
      using matrixMultiply_fin[of n n "mk n n B" n "mk n n B"] assms cB
      by (simp add: ent_mk_carrier finite_matrix_mk)
    have rb: "matrixMultiply (mk n n R) (mk n n B) = Inr (mk n n (fmul n R B))"
      using matrixMultiply_fin[of n n "mk n n R" n "mk n n B"] assms cR cB
      by (simp add: ent_mk_carrier finite_matrix_mk)
    have half: "jsfloor (jsdiv (Fin (real e)) (Fin 2)) = Fin (real (e div 2))"
      by (simp add: half_of_nat)
    have lt: "e div 2 < e" using False by simp
    have cBB: "carrier n (fmul n B B)" using cB by (simp add: carrier_fmul)
    show ?thesis
    proof (cases "e mod 2 = 1")
      case True
      have e: "e = Suc (2 * (e div 2))" using True by presburger
      have "power_loop (mk n n R) (mk n n B) (Fin (real e))
          = power_loop (mk n n (fmul n R B)) (mk n n (fmul n B B)) (Fin (real (e div 2)))"
        using pos True by (subst power_loop.simps) (simp add: mod2_of_nat jseq_def rb sq half del: jsmod.simps jsfloor.simps jsdiv.simps)
      also have "\<dots> = Some (Inr (mk n n (fmul n (fmul n R B) (fpow n (fmul n B B) (e div 2)))))"
        using less.IH[OF lt carrier_fmul[OF cR cB] cBB] .
      also have "fmul n (fmul n R B) (fpow n (fmul n B B) (e div 2)) = fmul n R (fpow n B e)"
      proof -
        have "fpow n B e = fmul n (fpow n B (Suc 0)) (fpow n B (2 * (e div 2)))"
          using fpow_add[OF cB, of "Suc 0" "2 * (e div 2)"] e by simp
        then show ?thesis using cB by (simp add: fpow_square fmul_assoc fpow_one del: fpow.simps)
      qed
      finally show ?thesis .
    next
      case False
      then have e: "e = 2 * (e div 2)" and m0: "e mod 2 = 0" by presburger+
      have "power_loop (mk n n R) (mk n n B) (Fin (real e))
          = power_loop (mk n n R) (mk n n (fmul n B B)) (Fin (real (e div 2)))"
        using pos m0 by (subst power_loop.simps) (simp add: mod2_of_nat jseq_def sq half del: jsmod.simps jsfloor.simps jsdiv.simps)
      also have "\<dots> = Some (Inr (mk n n (fmul n R (fpow n (fmul n B B) (e div 2)))))"
        using less.IH[OF lt cR cBB] .
      also have "fpow n (fmul n B B) (e div 2) = fpow n B e"
        using fpow_square[OF cB, of "e div 2"] e by simp
      finally show ?thesis .
    qed
  qed
qed

lemma eff_of_nat: "eff (real k) = k"
  by (simp add: eff_def)

lemma power_loop_real:
  assumes n: "0 < n" and cR: "carrier n R" and cB: "carrier n B"
  shows "power_loop (mk n n R) (mk n n B) (Fin x)
       = Some (Inr (mk n n (fmul n R (fpow n B (eff x)))))"
proof -
  consider (nonpos) "x \<le> 0" | (int) "0 < x" "x = of_int \<lfloor>x\<rfloor>" | (frac) "0 < x" "x \<noteq> of_int \<lfloor>x\<rfloor>"
    by fastforce
  then show ?thesis
  proof cases
    case nonpos
    then show ?thesis
      using cR by (subst power_loop.simps) (simp add: jsgt_def eff_def fmul_fone_right)
  next
    case int
    then have x: "x = real (nat \<lfloor>x\<rfloor>)" by simp
    have "eff x = nat \<lfloor>x\<rfloor>" using int by (simp add: eff_def)
    then show ?thesis
      using power_loop_nat[OF n cR cB, of "nat \<lfloor>x\<rfloor>"] x by simp
  next
    case frac
    have pos: "jsgt (Fin x) (Fin 0)" using frac by (simp add: jsgt_def)
    have odd: "\<not> jseq (jsmod (Fin x) (Fin 2)) (Fin 1)"
    proof
      assume "jseq (jsmod (Fin x) (Fin 2)) (Fin 1)"
      then have "x = of_int (2 * trunc (x / 2) + 1)" by (simp add: jseq_def)
      then have "x = of_int \<lfloor>x\<rfloor>" by (metis floor_of_int)
      then show False using frac by simp
    qed
    have sq: "matrixMultiply (mk n n B) (mk n n B) = Inr (mk n n (fmul n B B))"
      using matrixMultiply_fin[of n n "mk n n B" n "mk n n B"] n cB
      by (simp add: ent_mk_carrier finite_matrix_mk)
    have "0 \<le> \<lfloor>x / 2\<rfloor>" using frac by simp
    then have half: "jsfloor (jsdiv (Fin x) (Fin 2)) = Fin (real (nat \<lfloor>x / 2\<rfloor>))"
      by simp
    have "power_loop (mk n n R) (mk n n B) (Fin x)
        = power_loop (mk n n R) (mk n n (fmul n B B)) (Fin (real (nat \<lfloor>x / 2\<rfloor>)))"
      using pos odd by (subst power_loop.simps) (simp add: sq half del: jsmod.simps jsfloor.simps jsdiv.simps)
    also have "\<dots> = Some (Inr (mk n n (fmul n R (fpow n (fmul n B B) (nat \<lfloor>x / 2\<rfloor>)))))"
      using power_loop_nat[OF n cR carrier_fmul[OF cB cB]] .
    also have "fpow n (fmul n B B) (nat \<lfloor>x / 2\<rfloor>) = fpow n B (eff x)"
      using frac fpow_square[OF cB] by (simp add: eff_def)
    finally show ?thesis .
  qed
qed

lemma matrixPower_fin:
  assumes M: "finite_matrix n n M" and n: "0 < n"
  shows "matrixPower M (Fin x) = Some (Inr (mk n n (fpow n (ent M) (eff x))))"
proof -
  have len: "length M = n" using M by (simp add: finite_matrix_def)
  have c: "carrier n (ent M)" using M by (rule carrier_ent)
  consider (zero) "x = 0" | (one) "x = 1" | (loop) "x \<noteq> 0" "x \<noteq> 1" by blast
  then show ?thesis
  proof cases
    case zero
    then show ?thesis by (simp add: matrixPower_def jseq_def len identity_mk eff_def)
  next
    case one
    then have "eff x = Suc 0" by (simp add: eff_def)
    then show ?thesis
      using one c by (simp add: matrixPower_def jseq_def fmul_fone_left mk_ent[OF M])
  next
    case loop
    have "matrixPower M (Fin x) = power_loop (mk n n (fone n)) (mk n n (ent M)) (Fin x)"
      using loop by (simp add: matrixPower_def jseq_def len identity_mk mk_ent[OF M])
    also have "\<dots> = Some (Inr (mk n n (fmul n (fone n) (fpow n (ent M) (eff x)))))"
      using power_loop_real[OF n carrier_fone c] .
    finally show ?thesis using c by (simp add: fmul_fone_left carrier_fpow)
  qed
qed

lemma power_loop_stop: "\<not> jsgt k (Fin 0) \<Longrightarrow> power_loop R B k = Some (Inr R)"
  by (subst power_loop.simps) simp

lemma matrixPower_not_greater:
  "\<not> jsgt k (Fin 0) \<Longrightarrow> matrixPower M k = Some (Inr (identity (length M)))"
  by (auto simp: matrixPower_def Let_def power_loop_stop jseq_def jsgt_def)

lemma vmul_assoc: "vmul n (vmul n x f) g = vmul n x (fmul n f g)"
proof (rule ext)
  fix j
  have "vmul n (vmul n x f) g j = (\<Sum>k<n. \<Sum>l<n. x l * f l k * g k j)"
    by (simp add: vmul_def sum_distrib_right)
  also have "\<dots> = (\<Sum>l<n. \<Sum>k<n. x l * f l k * g k j)"
    by (rule sum.swap)
  also have "\<dots> = vmul n x (fmul n f g) j"
    by (simp add: vmul_def fmul_def sum_distrib_left mult.assoc)
  finally show "vmul n (vmul n x f) g j = vmul n x (fmul n f g) j" .
qed

lemma vmul_vent_mkv: "vmul n (vent (mkv n x)) g = vmul n x g"
  by (rule ext) (simp add: vmul_def vent_mkv)

lemma vmul_fone: "j < n \<Longrightarrow> vmul n x (fone n) j = x j"
proof -
  assume j: "j < n"
  have "vmul n x (fone n) j = (\<Sum>k<n. if k = j then x k else 0)"
    unfolding vmul_def by (rule sum.cong) (auto simp: fone_def)
  also have "\<dots> = x j" using j by (simp add: sum.delta)
  finally show ?thesis .
qed

lemma advance_seq_fin:
  assumes M: "finite_matrix n n M" and n: "0 < n"
  shows "finite_vec n v \<Longrightarrow>
         advance_seq k v M = Inr (mkv n (vmul n (vent v) (fpow n (ent M) k)))"
proof (induction k arbitrary: v)
  case 0
  have "mkv n (vmul n (vent v) (fone n)) = mkv n (vent v)"
    by (rule mkv_cong) (simp add: vmul_fone)
  then show ?case using 0 by (simp add: mkv_vent)
next
  case (Suc k)
  have c: "carrier n (ent M)" using M by (rule carrier_ent)
  have step: "vectorMatrixMultiply v M = Inr (mkv n (vmul n (vent v) (ent M)))"
    using vectorMatrixMultiply_fin[OF Suc.prems M n] .
  have "advance_seq (Suc k) v M = advance_seq k (mkv n (vmul n (vent v) (ent M))) M"
    by (simp add: step)
  also have "\<dots> = Inr (mkv n (vmul n (vmul n (vent v) (ent M)) (fpow n (ent M) k)))"
    using Suc.IH[OF finite_vec_mkv] by (simp add: vmul_vent_mkv)
  also have "vmul n (vmul n (vent v) (ent M)) (fpow n (ent M) k)
      = vmul n (vent v) (fpow n (ent M) (Suc k))"
    using fpow_add[OF c, of "Suc 0" k] c
    by (simp add: vmul_assoc fmul_fone_left del: fpow.simps) (simp add: fmul_fone_left)
  finally show ?case .
qed

lemma zeros_update_one_hot: "i < n \<Longrightarrow> (zeros n)[i := Fin 1] = one_hot n i"
  by (rule nth_equalityI) (simp_all add: zeros_def one_hot_def nth_list_update)

lemma transition_loop:
  assumes "k \<le> n"
  shows "foldl (transition_row N p q) (zero_matrix n n) [0..<k]
       = map (trow N p q n) [0..<k] @ replicate (n - k) (zeros n)"
  using assms
proof (induction k)
  case 0
  show ?case by (simp add: zero_matrix_def zeros_def map_replicate_const)
next
  case (Suc k)
  let ?m = "map (trow N p q n) [0..<k] @ replicate (n - k) (zeros n)"
  have row: "?m ! k = zeros n" using Suc.prems by (simp add: nth_append)
  have "foldl (transition_row N p q) (zero_matrix n n) [0..<Suc k] = transition_row N p q ?m k"
    using Suc by simp
  also have "\<dots> = ?m[k := trow N p q n k]"
    using Suc.prems unfolding transition_row_def set_cell_def trow_def row
    by (simp add: nth_list_update)
  also have "\<dots> = map (trow N p q n) [0..<Suc k] @ replicate (n - Suc k) (zeros n)"
    using Suc.prems
    by (intro nth_equalityI) (auto simp: nth_append nth_list_update less_Suc_eq)
  finally show ?case .
qed

lemma generateTransitionMatrix_closed:
  assumes "array_length_ok (N + 1)"
  shows "generateTransitionMatrix N p
       = Inr (map (trow N p (jssub (Fin 1) p) (nat (N + 1))) [0..<nat (N + 1)])"
  using assms transition_loop[of "nat (N + 1)" "nat (N + 1)" N p "jssub (Fin 1) p"]
  by (simp add: generateTransitionMatrix_def Let_def del: upt_Suc)

lemma length_trow: "length (trow N p q n i) = n"
  by (simp add: trow_def zeros_def)

lemma trow_fin:
  assumes "1 \<le> N" "i < nat (N + 1)"
  shows "trow N (Fin p) (jssub (Fin 1) (Fin p)) (nat (N + 1)) i
       = mkv (nat (N + 1)) (transition_entry (nat N) p i)"
proof (rule nth_equalityI)
  show "length (trow N (Fin p) (jssub (Fin 1) (Fin p)) (nat (N + 1)) i)
      = length (mkv (nat (N + 1)) (transition_entry (nat N) p i))"
    by (simp add: length_trow mkv_def)
next
  fix j assume "j < length (trow N (Fin p) (jssub (Fin 1) (Fin p)) (nat (N + 1)) i)"
  then have j: "j < nat (N + 1)" by (simp add: length_trow)
  have q: "jssub (Fin 1) (Fin p) = Fin (1 - p)" by (simp add: jssub_def)
  have r: "mkv (nat (N + 1)) (transition_entry (nat N) p i) ! j = Fin (transition_entry (nat N) p i j)"
    using j by (simp add: mkv_def)
  show "trow N (Fin p) (jssub (Fin 1) (Fin p)) (nat (N + 1)) i ! j
      = mkv (nat (N + 1)) (transition_entry (nat N) p i) ! j"
  proof (cases "i = 0 \<or> int i = N")
    case True
    then have b: "i = 0 \<or> i = nat N" by linarith
    have "trow N (Fin p) (Fin (1 - p)) (nat (N + 1)) i ! j = (if j = i then Fin 1 else Fin 0)"
      using True j assms(2) by (simp add: trow_def zeros_def nth_list_update)
    moreover have "transition_entry (nat N) p i j = (if j = i then 1 else 0)"
      using b by (simp add: transition_entry_def)
    ultimately show ?thesis by (simp add: q r)
  next
    case False
    then have b: "\<not> (i = 0 \<or> i = nat N)" using assms(1) by linarith
    have i1: "i + 1 < nat (N + 1)" using False assms by linarith
    have "trow N (Fin p) (Fin (1 - p)) (nat (N + 1)) i ! j
        = (if j = i - 1 then Fin (1 - p) else if j = i + 1 then Fin p else Fin 0)"
      using False j i1 by (simp add: trow_def zeros_def nth_list_update)
    moreover have "transition_entry (nat N) p i j
        = (if j = i - 1 then 1 - p else if j = i + 1 then p else 0)"
    proof -
      have "(j + 1 = i) = (j = i - 1)" using b by linarith
      then show ?thesis using b by (simp add: transition_entry_def)
    qed
    ultimately show ?thesis by (simp add: q r)
  qed
qed

lemma generateTransitionMatrix_fin:
  assumes "1 \<le> N" "array_length_ok (N + 1)"
  shows "generateTransitionMatrix N (Fin p)
       = Inr (mk (nat (N + 1)) (nat (N + 1)) (transition_entry (nat N) p))"
  using trow_fin[OF assms(1), of _ p]
  by (simp add: generateTransitionMatrix_closed[OF assms(2)] mk_def cong: map_cong)

lemma generateTransitionMatrix_Inr:
  assumes "generateTransitionMatrix N p = Inr M"
  shows "array_length_ok (N + 1)"
proof (rule ccontr)
  assume "\<not> array_length_ok (N + 1)"
  then have "generateTransitionMatrix N p = Inl RangeError"
    by (simp add: generateTransitionMatrix_def)
  with assms show False by simp
qed

lemma total_fold_fin:
  "list_all is_fin v \<Longrightarrow> foldl jsadd (Fin a) v = Fin (a + (\<Sum>i<length v. val (v ! i)))"
proof (induction v arbitrary: a rule: rev_induct)
  case Nil
  show ?case by simp
next
  case (snoc x v)
  then obtain r where x: "x = Fin r" by (cases x) simp_all
  have "(\<Sum>i<length v. val ((v @ [x]) ! i)) = (\<Sum>i<length v. val (v ! i))"
    by (rule sum.cong) (simp_all add: nth_append)
  then show ?case using snoc by (simp add: x)
qed

lemma total_fin:
  assumes "finite_vec n v"
  shows "total v = Fin (\<Sum>i<n. vent v i)"
proof -
  have len: "length v = n" and fin: "list_all is_fin v"
    using assms by (simp_all add: finite_vec_def)
  have "(\<Sum>i<n. val (v ! i)) = (\<Sum>i<n. vent v i)"
    by (rule sum.cong) (simp_all add: vent_def len)
  then show ?thesis
    using total_fold_fin[OF fin, of 0] by (simp add: total_def len)
qed

lemma total_mkv: "total (mkv n f) = Fin (\<Sum>i<n. f i)"
  using total_fin[OF finite_vec_mkv, of n f] by (simp add: vent_mkv)

lemma jsadd_Fin_left: "jsadd a x = Fin r \<Longrightarrow> is_fin a \<and> is_fin x"
  by (cases a; cases x) simp_all

lemma fold_fin_all: "foldl jsadd a v = Fin r \<Longrightarrow> is_fin a \<and> list_all is_fin v"
proof (induction v arbitrary: r rule: rev_induct)
  case Nil
  then show ?case by simp
next
  case (snoc x v)
  then have "jsadd (foldl jsadd a v) x = Fin r" by simp
  then have "is_fin (foldl jsadd a v)" "is_fin x" using jsadd_Fin_left by blast+
  then obtain r' where "foldl jsadd a v = Fin r'" by (cases "foldl jsadd a v") simp_all
  with snoc.IH \<open>is_fin x\<close> show ?case by simp
qed

lemma total_Fin_finite: "total v = Fin r \<Longrightarrow> finite_vec (length v) v"
  using fold_fin_all[of "Fin 0" v r] by (simp add: total_def finite_vec_def)

lemma new_rows_eq:
  "new_rows M h = ([length (row_store h)..<length (row_store h) + length M],
                   h\<lparr>row_store := row_store h @ M\<rparr>)"
proof (induction M arbitrary: h)
  case Nil
  show ?case by simp
next
  case (Cons xs M)
  show ?case
    by (simp add: new_row_def Cons upt_conv_Cons del: upt_Suc)
qed

lemma new_matrix_eq:
  "new_matrix M h =
     (length (mat_store h),
      h\<lparr>row_store := row_store h @ M,
        mat_store := mat_store h @ [[length (row_store h)..<length (row_store h) + length M]]\<rparr>)"
  by (simp add: new_matrix_def new_rows_eq)

lemma unchanged_refl: "unchanged h h"
  by (simp add: unchanged_def)

lemma unchanged_trans: "unchanged h1 h2 \<Longrightarrow> unchanged h2 h3 \<Longrightarrow> unchanged h1 h3"
  unfolding unchanged_def
  by (metis length_take min.absorb2 nat_le_linear take_all take_take min.commute)

lemma unchanged_new_matrix: "unchanged h (snd (new_matrix M h))"
  by (simp add: new_matrix_eq unchanged_def)

lemma foldl_invariant:
  assumes "P s" and "\<And>s x. x \<in> set xs \<Longrightarrow> P s \<Longrightarrow> P (f s x)"
  shows "P (foldl f s xs)"
  using assms by (induction xs arbitrary: s) simp_all

lemma mm_step_h_frame:
  assumes "mat_store h ! res ! i \<ge> n0"
  shows "take n0 (row_store (mm_step_h a b res i j h k)) = take n0 (row_store h)
       \<and> mat_store (mm_step_h a b res i j h k) = mat_store h
       \<and> length (row_store (mm_step_h a b res i j h k)) = length (row_store h)"
  using assms by (simp add: mm_step_h_def Let_def take_update_cancel)

lemma mm_loops_frame:
  assumes res: "ms ! res = [n0..<n0 + rowsA]" and h1: "mat_store h1 = ms"
  shows "take n0 (row_store (foldl (\<lambda>h i. foldl (\<lambda>h j. foldl (mm_step_h a b res i j) h [0..<colsA])
                 h [0..<colsB]) h1 [0..<rowsA])) = take n0 (row_store h1)
       \<and> mat_store (foldl (\<lambda>h i. foldl (\<lambda>h j. foldl (mm_step_h a b res i j) h [0..<colsA])
                 h [0..<colsB]) h1 [0..<rowsA]) = ms"
proof -
  let ?P = "\<lambda>h::heap. take n0 (row_store h) = take n0 (row_store h1) \<and> mat_store h = ms"
  have step: "?P (mm_step_h a b res i j h k)" if "?P h" "i < rowsA" for h i j k
  proof -
    have "mat_store h ! res ! i \<ge> n0" using that res by simp
    from mm_step_h_frame[OF this, of a b j k] that show ?thesis by simp
  qed
  have "?P (foldl (\<lambda>h i. foldl (\<lambda>h j. foldl (mm_step_h a b res i j) h [0..<colsA])
                 h [0..<colsB]) h1 [0..<rowsA])"
  proof (rule foldl_invariant)
    show "?P h1" using h1 by simp
  next
    fix h i assume i: "i \<in> set [0..<rowsA]" and P: "?P h"
    show "?P (foldl (\<lambda>h j. foldl (mm_step_h a b res i j) h [0..<colsA]) h [0..<colsB])"
    proof (rule foldl_invariant)
      show "?P h" by (rule P)
    next
      fix h' j assume "?P h'"
      then show "?P (foldl (mm_step_h a b res i j) h' [0..<colsA])"
        using i by (intro foldl_invariant[where P = ?P]) (simp_all add: step)
    qed
  qed
  then show ?thesis by simp
qed

lemma matrixMultiply_h_frame: "unchanged h (snd (matrixMultiply_h a b h))"
proof -
  have alloc: "unchanged h (foldl (\<lambda>h i. foldl (\<lambda>h j. foldl (mm_step_h a b res i j) h [0..<colsA])
                 h [0..<colsB]) h1 [0..<rowsA])"
    if "new_matrix (zero_matrix rowsA colsB) h = (res, h1)" for rowsA colsA colsB res h1
  proof -
    let ?n0 = "length (row_store h)"
    have res: "res = length (mat_store h)"
      and h1: "h1 = h\<lparr>row_store := row_store h @ zero_matrix rowsA colsB,
                      mat_store := mat_store h @ [[?n0..<?n0 + rowsA]]\<rparr>"
      using that by (simp_all add: new_matrix_eq zero_matrix_def zeros_def)
    have "mat_store h1 ! res = [?n0..<?n0 + rowsA]" by (simp add: res h1)
    from mm_loops_frame[OF this refl, of a b colsA colsB]
    show ?thesis by (simp add: unchanged_def h1)
  qed
  show ?thesis
    by (auto simp: matrixMultiply_h_def Let_def unchanged_refl alloc simp del: upt_Suc
        split: list.splits prod.splits)
qed

lemma power_loop_h_frame:
  "\<exists>r h'. power_loop_h result base (Fin x) h = Some (r, h') \<and> unchanged h h'"
proof (induction "nat \<lceil>x\<rceil>" arbitrary: x result base h rule: less_induct)
  case less
  show ?case
  proof (cases "0 < x")
    case False
    then show ?thesis
      by (subst power_loop_h.simps) (simp add: jsgt_def unchanged_refl)
  next
    case True
    have "\<lfloor>x / 2\<rfloor> < \<lceil>x\<rceil>" using True by linarith
    moreover have "0 < \<lceil>x\<rceil>" using True by linarith
    ultimately have lt: "nat \<lceil>real_of_int \<lfloor>x / 2\<rfloor>\<rceil> < nat \<lceil>x\<rceil>" by simp
    have half: "jsfloor (jsdiv (Fin x) (Fin 2)) = Fin (real_of_int \<lfloor>x / 2\<rfloor>)" by simp
    obtain r1 h1 where s1: "(if jseq (jsmod (Fin x) (Fin 2)) (Fin 1) then matrixMultiply_h result base h
               else (Inr result, h)) = (r1, h1)" by fastforce
    have u1: "unchanged h h1"
      using s1 matrixMultiply_h_frame[of h result base] by (auto simp: unchanged_refl split: if_splits)
    obtain r2 h2 where s2: "matrixMultiply_h base base h1 = (r2, h2)" by fastforce
    have u2: "unchanged h1 h2" using s2 matrixMultiply_h_frame[of h1 base base] by simp
    show ?thesis
    proof (cases r1)
      case (Inl e)
      then show ?thesis
        using True s1 u1 by (subst power_loop_h.simps) (simp add: jsgt_def del: jsmod.simps)
    next
      case r1: (Inr result')
      show ?thesis
      proof (cases r2)
        case (Inl e)
        then show ?thesis
          using True s1 s2 r1 unchanged_trans[OF u1 u2]
          by (subst power_loop_h.simps) (simp add: jsgt_def del: jsmod.simps)
      next
        case (Inr base')
        obtain r h' where "power_loop_h result' base' (Fin (real_of_int \<lfloor>x / 2\<rfloor>)) h2 = Some (r, h')"
          "unchanged h2 h'"
          using less[OF lt] by blast
        then show ?thesis
          using True s1 s2 r1 Inr unchanged_trans[OF unchanged_trans[OF u1 u2]]
          by (subst power_loop_h.simps) (simp add: jsgt_def half del: jsmod.simps jsfloor.simps jsdiv.simps)
      qed
    qed
  qed
qed

lemma matrixPower_h_frame:
  "\<exists>r h'. matrixPower_h m (Fin x) h = Some (r, h') \<and> unchanged h h'"
proof -
  obtain ident h1 where a1: "new_matrix (identity (length (mat_store h ! m))) h = (ident, h1)"
    by fastforce
  have u1: "unchanged h h1" using unchanged_new_matrix[of h] a1 by (metis snd_conv)
  obtain base h2 where a2: "new_matrix (load h1 m) h1 = (base, h2)" by fastforce
  have u2: "unchanged h1 h2" using unchanged_new_matrix[of h1] a2 by (metis snd_conv)
  obtain r h' where "power_loop_h ident base (Fin x) h2 = Some (r, h')" "unchanged h2 h'"
    using power_loop_h_frame by blast
  then show ?thesis
    using a1 a2 u1 unchanged_trans[OF unchanged_trans[OF u1 u2]]
    by (auto simp: matrixPower_h_def Let_def)
qed

lemma total_nil: "total [] = Fin 0"
  by (simp add: total_def)

lemma ready_shape:
  assumes "ready s"
  shows "finite_matrix (nat (N_global s + 1)) (nat (N_global s + 1)) (transitionMatrix s)"
    and "0 < nat (N_global s + 1)"
    and "finite_vec (nat (N_global s + 1)) (currentVector s)"
proof -
  obtain p where p: "p_global s = Fin p" using assms by (cases "p_global s") (simp_all add: ready_def)
  have N: "1 \<le> N_global s" using assms by (simp add: ready_def)
  have g: "generateTransitionMatrix (N_global s) (Fin p) = Inr (transitionMatrix s)"
    using assms by (simp add: ready_def p)
  have ok: "array_length_ok (N_global s + 1)" using g by (rule generateTransitionMatrix_Inr)
  have "transitionMatrix s = mk (nat (N_global s + 1)) (nat (N_global s + 1)) (transition_entry (nat (N_global s)) p)"
    using g generateTransitionMatrix_fin[OF N ok, of p] by simp
  then show "finite_matrix (nat (N_global s + 1)) (nat (N_global s + 1)) (transitionMatrix s)"
    by (simp add: finite_matrix_mk)
  show "0 < nat (N_global s + 1)" using N by simp
  show "finite_vec (nat (N_global s + 1)) (currentVector s)" using assms by (simp add: ready_def)
qed

lemma advanceBySteps_fin:
  assumes "finite_vec n v" "finite_matrix n n M" "0 < n"
  shows "\<exists>v'. advanceBySteps v M (Fin x) = Some (Inr v') \<and> finite_vec n v'"
proof -
  have "vectorMatrixMultiply v (mk n n (fpow n (ent M) (eff x)))
      = Inr (mkv n (vmul n (vent v) (ent (mk n n (fpow n (ent M) (eff x))))))"
    using vectorMatrixMultiply_fin[OF assms(1) finite_matrix_mk assms(3)] .
  then show ?thesis
    using matrixPower_fin[OF assms(2,3), of x] finite_vec_mkv
    by (simp add: advanceBySteps_def)
qed

lemma advanceBySteps_one:
  "advanceBySteps v M (Fin 1) = Some (vectorMatrixMultiply v M)"
  by (simp add: advanceBySteps_def matrixPower_def jseq_def)

lemma fpow_fone: "fpow n (fone n) k = fone n"
  by (induction k) (simp_all add: fmul_fone_right carrier_fone)

lemma matrixPower_identity:
  assumes "0 < n"
  shows "matrixPower (identity n) (Fin x) = Some (Inr (identity n))"
  using matrixPower_fin[of n "mk n n (fone n)" x] assms
  by (simp add: identity_mk ent_mk_carrier carrier_fone fpow_fone finite_matrix_mk)

lemma vectorMatrixMultiply_identity:
  assumes "finite_vec n v" "0 < n"
  shows "vectorMatrixMultiply v (identity n) = Inr v"
proof -
  have "mkv n (vmul n (vent v) (fone n)) = mkv n (vent v)"
    by (rule mkv_cong) (simp add: vmul_fone)
  then show ?thesis
    using vectorMatrixMultiply_fin[of n v n "mk n n (fone n)"] assms
    by (simp add: identity_mk ent_mk_carrier carrier_fone mkv_vent finite_matrix_mk)
qed

lemma unchanged_load:
  assumes "unchanged h h'" "valid h m"
  shows "load h' m = load h m"
proof -
  have m: "m < length (mat_store h)" and rs: "\<forall>r \<in> set (mat_store h ! m). r < length (row_store h)"
    using assms(2) by (simp_all add: valid_def list_all_iff)
  have t1: "take (length (row_store h)) (row_store h') = row_store h"
    and t2: "take (length (mat_store h)) (mat_store h') = mat_store h"
    using assms(1) by (simp_all add: unchanged_def)
  have "mat_store h' ! m = mat_store h ! m"
    using m t2 by (metis nth_take)
  moreover have "row_store h' ! r = row_store h ! r" if "r < length (row_store h)" for r
    using that t1 by (metis nth_take)
  ultimately show ?thesis using rs by (simp add: load_def)
qed

lemma matrixMultiply_shape:
  assumes A: "shape r c A" and B: "shape c c' B" and "0 < r" "0 < c"
  shows "\<exists>C. matrixMultiply A B = Inr C \<and> shape r c' C"
proof -
  obtain a0 A' where A': "A = a0 # A'" using A \<open>0 < r\<close> by (cases A) (auto simp: shape_def)
  obtain b0 B' where B': "B = b0 # B'" using B \<open>0 < c\<close> by (cases B) (auto simp: shape_def)
  have la: "length a0 = c" using A A' by (simp add: shape_def)
  have lb: "length b0 = c'" using B B' by (simp add: shape_def)
  have lA: "length A = r" and lB: "length B = c" using A B by (simp_all add: shape_def)
  have "matrixMultiply A B
      = Inr (map (\<lambda>i. map (\<lambda>j. dot A B i j c (Fin 0)) [0..<c']) [0..<r])"
    using matrixMultiply_closed[OF A' B'] la lb lA lB by simp
  moreover have "shape r c' (map (\<lambda>i. map (\<lambda>j. dot A B i j c (Fin 0)) [0..<c']) [0..<r])"
    by (simp add: shape_def list_all_length)
  ultimately show ?thesis by blast
qed

lemma shape_identity: "shape n n (identity n)"
  by (simp add: shape_def identity_def list_all_length)

lemma power_loop_shape:
  assumes n: "0 < n"
  shows "shape n n R \<Longrightarrow> shape n n B \<Longrightarrow>
         \<exists>P. power_loop R B (Fin x) = Some (Inr P) \<and> shape n n P"
proof (induction "nat \<lceil>x\<rceil>" arbitrary: x R B rule: less_induct)
  case less
  note sR = less.prems(1) and sB = less.prems(2)
  show ?case
  proof (cases "0 < x")
    case False
    then have "power_loop R B (Fin x) = Some (Inr R)"
      by (subst power_loop.simps) (simp add: jsgt_def)
    then show ?thesis using sR by blast
  next
    case True
    have "\<lfloor>x / 2\<rfloor> < \<lceil>x\<rceil>" using True by linarith
    moreover have "0 < \<lceil>x\<rceil>" using True by linarith
    ultimately have lt: "nat \<lceil>real_of_int \<lfloor>x / 2\<rfloor>\<rceil> < nat \<lceil>x\<rceil>" by simp
    have half: "jsfloor (jsdiv (Fin x) (Fin 2)) = Fin (real_of_int \<lfloor>x / 2\<rfloor>)" by simp
    have pos: "jsgt (Fin x) (Fin 0)" using True by (simp add: jsgt_def)
    let ?p1 = "if jseq (jsmod (Fin x) (Fin 2)) (Fin 1) then matrixMultiply R B else Inr R"
    obtain R' where R': "?p1 = Inr R'" "shape n n R'"
      using matrixMultiply_shape[OF sR sB n n] sR by (cases "jseq (jsmod (Fin x) (Fin 2)) (Fin 1)") auto
    obtain B' where B': "matrixMultiply B B = Inr B'" "shape n n B'"
      using matrixMultiply_shape[OF sB sB n n] by blast
    have "power_loop R B (Fin x) = power_loop R' B' (Fin (real_of_int \<lfloor>x / 2\<rfloor>))"
      by (subst power_loop.simps) (simp only: pos half if_True R'(1) B'(1) sum.case)
    then show ?thesis using less.hyps[OF lt R'(2) B'(2)] by simp
  qed
qed

lemma jsadd_zero_left: "jsadd (Fin 0) x = x"
  by (cases x) simp_all

lemma jsadd_zero_right: "jsadd x (Fin 0) = x"
  by (cases x) simp_all

lemma foldl_jsadd_zeros: "foldl jsadd a (replicate k (Fin 0)) = a"
  by (induction k arbitrary: a) (simp_all add: jsadd_zero_right)

lemma total_one_hot:
  assumes "i < n"
  shows "total (one_hot n i) = Fin 1"
proof -
  have "one_hot n i = replicate i (Fin 0) @ [Fin 1] @ replicate (n - i - 1) (Fin 0)"
    using assms by (intro nth_equalityI) (auto simp: one_hot_def nth_append)
  then show ?thesis by (simp add: total_def foldl_jsadd_zeros)
qed

lemma trow_interior:
  assumes "0 < i" "i + 1 < n" "int i \<noteq> N"
  shows "trow N p q n i = replicate (i - 1) (Fin 0) @ [q, Fin 0, p] @ replicate (n - i - 2) (Fin 0)"
proof (rule nth_equalityI)
  show "length (trow N p q n i)
      = length (replicate (i - 1) (Fin 0) @ [q, Fin 0, p] @ replicate (n - i - 2) (Fin 0))"
    using assms by (simp add: length_trow)
next
  fix j assume "j < length (trow N p q n i)"
  then have j: "j < n" by (simp add: length_trow)
  have t: "trow N p q n i ! j = (if j = i - 1 then q else if j = i + 1 then p else Fin 0)"
    using assms j by (simp add: trow_def zeros_def nth_list_update)
  consider "j < i - 1" | "j = i - 1" | "j = i" | "j = i + 1" | "i + 1 < j" by linarith
  then show "trow N p q n i ! j
      = (replicate (i - 1) (Fin 0) @ [q, Fin 0, p] @ replicate (n - i - 2) (Fin 0)) ! j"
  proof cases
    case 1
    then have "j \<noteq> i - 1" "j \<noteq> i + 1" by linarith+
    then show ?thesis unfolding t using 1 by (simp add: nth_append)
  next
    case 2 then show ?thesis unfolding t by (simp add: nth_append)
  next
    case 3
    then have "j \<noteq> i - 1" "j \<noteq> i + 1" "\<not> j < i - 1" "j - (i - 1) = 1"
      using assms by linarith+
    then show ?thesis unfolding t by (simp add: nth_append)
  next
    case 4
    then have "j - (i - 1) = 2" "j \<noteq> i - 1" "\<not> j < i - 1" using assms by linarith+
    then show ?thesis unfolding t using 4 by (simp add: nth_append)
  next
    case 5
    then obtain d where d: "j = i + 2 + d" using less_imp_add_positive by (metis Suc_eq_plus1 add_2_eq_Suc' less_iff_Suc_add add_Suc_right add_Suc)
    have "j - (i - 1) = 3 + d" "j \<noteq> i - 1" "j \<noteq> i + 1" "\<not> j < i - 1" "d < n - i - 2"
      using d assms j by linarith+
    then show ?thesis unfolding t by (simp add: nth_append)
  qed
qed

lemma total_trow_interior:
  assumes "0 < i" "i + 1 < n" "int i \<noteq> N"
  shows "total (trow N p q n i) = jsadd q p"
  unfolding trow_interior[OF assms] total_def
  by (simp add: foldl_jsadd_zeros jsadd_zero_left jsadd_zero_right)

lemma count_trow_interior:
  assumes "0 < i" "i + 1 < n" "int i \<noteq> N" "p \<noteq> Fin 0" "q \<noteq> Fin 0"
  shows "nonzero_count (trow N p q n i) = 2"
  unfolding trow_interior[OF assms(1,2,3)] nonzero_count_def
  using assms(4,5) by simp

lemma nth_trow_interior:
  assumes "0 < i" "i + 1 < n" "int i \<noteq> N" "j < n"
  shows "trow N p q n i ! j = (if j = i - 1 then q else if j = i + 1 then p else Fin 0)"
  using assms by (simp add: trow_def zeros_def nth_list_update)

section \<open>The engine over exact arithmetic\<close>

text \<open>
  The three facts of this section are about the algorithm with the exact arithmetic of
  this model. With IEEE doubles each sum and product is rounded, and the two sides of each
  equation then agree up to rounding only; no rounding error is bounded here.
  The shortcut through the power of the matrix gives what \<open>k\<close> single steps give.
\<close>

lemma exact_advanceBySteps_sequential:
  assumes "finite_vec n v" "finite_matrix n n M" "0 < n"
  shows "advanceBySteps v M (Fin (real k)) = Some (advance_seq k v M)
       \<and> (\<exists>v'. advance_seq k v M = Inr v' \<and> finite_vec n v')"
proof -
  have "vectorMatrixMultiply v (mk n n (fpow n (ent M) k))
      = Inr (mkv n (vmul n (vent v) (fpow n (ent M) k)))"
    using vectorMatrixMultiply_fin[OF assms(1) finite_matrix_mk assms(3)]
      carrier_fpow[OF carrier_ent[OF assms(2)], of k]
    by (simp add: ent_mk_carrier)
  then show ?thesis
    using matrixPower_fin[OF assms(2,3), of "real k"] advance_seq_fin[OF assms(2,3,1), of k]
    by (simp add: advanceBySteps_def eff_of_nat finite_vec_mkv)
qed

text \<open>One step keeps the sum of the vector when every row of the matrix sums to 1.\<close>

lemma exact_vectorMatrixMultiply_conserves:
  assumes v: "total v = Fin 1"
    and len: "length M = length v"
    and rows: "list_all (\<lambda>row. length row = c \<and> total row = Fin 1) M"
  shows "\<exists>v'. vectorMatrixMultiply v M = Inr v' \<and> length v' = c \<and> total v' = Fin 1"
proof -
  let ?r = "length v"
  have fv: "finite_vec ?r v" using v by (rule total_Fin_finite)
  have pos: "0 < ?r" using v by (cases v) (simp_all add: total_nil)
  have row: "finite_vec c (M ! i) \<and> total (M ! i) = Fin 1" if "i < ?r" for i
  proof -
    have "length (M ! i) = c \<and> total (M ! i) = Fin 1"
      using rows that len by (simp add: list_all_length)
    then show ?thesis using total_Fin_finite[of "M ! i" 1] by auto
  qed
  have fM: "finite_matrix ?r c M"
    using row len by (simp add: finite_matrix_def list_all_length)
  have rowsum: "(\<Sum>j<c. ent M i j) = 1" if "i < ?r" for i
  proof -
    have "Fin (\<Sum>j<c. vent (M ! i) j) = Fin 1"
      using row[OF that] total_fin[of c "M ! i"] by simp
    moreover have "ent M i = vent (M ! i)" using that len by (auto simp: ent_def)
    ultimately show ?thesis by simp
  qed
  have vsum: "(\<Sum>i<?r. vent v i) = 1"
    using total_fin[OF fv] v by simp
  have "(\<Sum>j<c. vmul ?r (vent v) (ent M) j) = (\<Sum>j<c. \<Sum>i<?r. vent v i * ent M i j)"
    by (simp add: vmul_def)
  also have "\<dots> = (\<Sum>i<?r. \<Sum>j<c. vent v i * ent M i j)"
    by (rule sum.swap)
  also have "\<dots> = (\<Sum>i<?r. vent v i * (\<Sum>j<c. ent M i j))"
    by (simp add: sum_distrib_left)
  also have "\<dots> = (\<Sum>i<?r. vent v i)"
    by (rule sum.cong) (simp_all add: rowsum)
  finally have "(\<Sum>j<c. vmul ?r (vent v) (ent M) j) = 1" using vsum by simp
  then have "total (mkv c (vmul ?r (vent v) (ent M))) = Fin 1"
    by (simp add: total_mkv)
  moreover have "length (mkv c (vmul ?r (vent v) (ent M))) = c" by (simp add: mkv_def)
  ultimately show ?thesis
    using vectorMatrixMultiply_fin[OF fv fM pos] by simp
qed

text \<open>The powers of a matrix multiply as the exponents add.\<close>

lemma exact_matrixPower_semigroup:
  assumes "finite_matrix n n M" "0 < n"
  shows "(\<exists>P1 P2 P. matrixPower M (Fin (real k1)) = Some (Inr P1)
            \<and> matrixPower M (Fin (real k2)) = Some (Inr P2)
            \<and> matrixMultiply P1 P2 = Inr P
            \<and> matrixPower M (Fin (real (k1 + k2))) = Some (Inr P))
       \<and> matrixPower M (Fin 0) = Some (Inr (identity n))
       \<and> matrixPower M (Fin 1) = Some (Inr M)"
proof -
  have c: "carrier n (ent M)" using assms(1) by (rule carrier_ent)
  have len: "length M = n" using assms(1) by (simp add: finite_matrix_def)
  have "matrixMultiply (mk n n (fpow n (ent M) k1)) (mk n n (fpow n (ent M) k2))
      = Inr (mk n n (fpow n (ent M) (k1 + k2)))"
    using matrixMultiply_fin[OF finite_matrix_mk finite_matrix_mk assms(2) assms(2)]
    by (simp add: ent_mk_carrier carrier_fpow[OF c] fpow_add[OF c])
  then have "\<exists>P1 P2 P. matrixPower M (Fin (real k1)) = Some (Inr P1)
            \<and> matrixPower M (Fin (real k2)) = Some (Inr P2)
            \<and> matrixMultiply P1 P2 = Inr P
            \<and> matrixPower M (Fin (real (k1 + k2))) = Some (Inr P)"
    using matrixPower_fin[OF assms] by (simp add: eff_of_nat del: of_nat_add)
  moreover have "matrixPower M (Fin 0) = Some (Inr (identity n))"
    by (simp add: matrixPower_def jseq_def len)
  moreover have "matrixPower M (Fin 1) = Some (Inr M)"
    by (simp add: matrixPower_def jseq_def)
  ultimately show ?thesis by blast
qed

section \<open>Claims\<close>

text \<open>
  C2. The claim as stated fails for \<open>p = 0\<close> (and \<open>p = 1\<close>): the interior row of
  \<^verbatim>\<open>generateTransitionMatrix(2, 0)\<close> is \<open>[1, 0, 0]\<close>, with one nonzero entry, not two.
\<close>

theorem generateTransitionMatrix_interior_counterexample:
  "generateTransitionMatrix 2 (Fin 0)
     = Inr [[Fin 1, Fin 0, Fin 0], [Fin 1, Fin 0, Fin 0], [Fin 0, Fin 0, Fin 1]]
   \<and> nonzero_count (projr (generateTransitionMatrix 2 (Fin 0)) ! 1) = 1"
proof -
  have "generateTransitionMatrix 2 (Fin 0)
     = Inr [[Fin 1, Fin 0, Fin 0], [Fin 1, Fin 0, Fin 0], [Fin 0, Fin 0, Fin 1]]"
    by (simp add: generateTransitionMatrix_def array_length_ok_def max_array_length_def
        Let_def zero_matrix_def zeros_def transition_row_def set_cell_def jssub_def
        eval_nat_numeral)
  then show ?thesis by (simp add: nonzero_count_def)
qed

text \<open>
  C2, amended. For every integer \<open>N\<close> from 1 to 4294967294 and every \<open>p\<close>,
  \<^verbatim>\<open>generateTransitionMatrix(N, p)\<close> returns a matrix of \<open>N + 1\<close> rows of length \<open>N + 1\<close>.
  Rows \<open>0\<close> and \<open>N\<close> are one-hot at the diagonal and sum to 1. Every interior row \<open>i\<close> has
  the value that the code computes for \<^verbatim>\<open>1 - p\<close> at column \<open>i - 1\<close>, \<open>p\<close> at column \<open>i + 1\<close> and
  zero in every other column; its sum is the code's \<^verbatim>\<open>(1 - p) + p\<close>, and it has exactly two
  nonzero entries whenever \<open>p\<close> and the computed \<^verbatim>\<open>1 - p\<close> are both nonzero.
\<close>

theorem generateTransitionMatrix_rows:
  assumes "1 \<le> N" "N + 1 \<le> max_array_length"
  shows "\<exists>M. generateTransitionMatrix N p = Inr M
     \<and> shape (nat (N + 1)) (nat (N + 1)) M
     \<and> M ! 0 = one_hot (nat (N + 1)) 0
     \<and> M ! nat N = one_hot (nat (N + 1)) (nat N)
     \<and> total (M ! 0) = Fin 1
     \<and> total (M ! nat N) = Fin 1
     \<and> (\<forall>i j. 0 < i \<and> i < nat N \<and> j < nat (N + 1) \<longrightarrow>
           M ! i ! j = (if j = i - 1 then jssub (Fin 1) p else if j = i + 1 then p else Fin 0))
     \<and> (\<forall>i. 0 < i \<and> i < nat N \<longrightarrow> total (M ! i) = jsadd (jssub (Fin 1) p) p)
     \<and> (p \<noteq> Fin 0 \<and> jssub (Fin 1) p \<noteq> Fin 0 \<longrightarrow>
           (\<forall>i. 0 < i \<and> i < nat N \<longrightarrow> nonzero_count (M ! i) = 2))"
proof -
  let ?n = "nat (N + 1)"
  let ?q = "jssub (Fin 1) p"
  let ?M = "map (trow N p ?q ?n) [0..<?n]"
  have ok: "array_length_ok (N + 1)" using assms by (simp add: array_length_ok_def)
  have g: "generateTransitionMatrix N p = Inr ?M"
    using ok by (rule generateTransitionMatrix_closed)
  have n: "0 < ?n" "nat N < ?n" using assms(1) by linarith+
  have row: "?M ! i = trow N p ?q ?n i" if "i < ?n" for i
    using that by simp
  have sh: "shape ?n ?n ?M"
    by (simp add: shape_def list_all_length length_trow)
  have r0: "?M ! 0 = one_hot ?n 0"
    using n(1) by (simp only: row[OF n(1)] trow_def) (simp add: zeros_update_one_hot)
  have iN: "int (nat N) = N" using assms(1) by simp
  have rN: "?M ! nat N = one_hot ?n (nat N)"
    using n(2) by (simp only: row[OF n(2)] trow_def iN) (simp add: zeros_update_one_hot)
  have t0: "total (?M ! 0) = Fin 1" by (simp only: r0 total_one_hot[OF n(1)])
  have tN: "total (?M ! nat N) = Fin 1" by (simp only: rN total_one_hot[OF n(2)])
  have interior: "i < ?n" "i + 1 < ?n" "int i \<noteq> N" if "0 < i" "i < nat N" for i
    using that assms(1) by linarith+
  have ent: "?M ! i ! j = (if j = i - 1 then ?q else if j = i + 1 then p else Fin 0)"
    if "0 < i" "i < nat N" "j < ?n" for i j
    unfolding row[OF interior(1)[OF that(1,2)]]
    by (rule nth_trow_interior[OF that(1) interior(2,3)[OF that(1,2)] that(3)])
  have tot: "total (?M ! i) = jsadd ?q p" if "0 < i" "i < nat N" for i
    unfolding row[OF interior(1)[OF that]]
    by (rule total_trow_interior[OF that(1) interior(2,3)[OF that]])
  have cnt: "nonzero_count (?M ! i) = 2"
    if "p \<noteq> Fin 0" "?q \<noteq> Fin 0" "0 < i" "i < nat N" for i
    unfolding row[OF interior(1)[OF that(3,4)]]
    by (rule count_trow_interior[OF that(3) interior(2,3)[OF that(3,4)] that(1,2)])
  show ?thesis
    using g sh r0 rN t0 tN ent tot cnt by blast
qed

theorem generateTransitionMatrix_rows_witness:
  "(1::int) \<le> 3 \<and> (3::int) + 1 \<le> max_array_length
   \<and> (\<exists>M. generateTransitionMatrix 3 (Fin (1 / 4)) = Inr M
        \<and> shape 4 4 M \<and> M ! 0 = one_hot 4 0 \<and> M ! 3 = one_hot 4 3
        \<and> M ! 1 ! 0 = Fin (3 / 4) \<and> M ! 1 ! 2 = Fin (1 / 4) \<and> M ! 1 ! 1 = Fin 0
        \<and> nonzero_count (M ! 2) = 2)"
proof -
  have a: "(1::int) \<le> 3" by simp
  have b: "(3::int) + 1 \<le> max_array_length" by (simp add: max_array_length_def)
  from generateTransitionMatrix_rows[OF a b, of "Fin (1 / 4)"]
  obtain M where M: "generateTransitionMatrix 3 (Fin (1 / 4)) = Inr M"
    "shape (nat (3 + 1)) (nat (3 + 1)) M"
    "M ! 0 = one_hot (nat (3 + 1)) 0" "M ! nat 3 = one_hot (nat (3 + 1)) (nat 3)"
    "\<forall>i j. 0 < i \<and> i < nat 3 \<and> j < nat (3 + 1) \<longrightarrow>
           M ! i ! j = (if j = i - 1 then jssub (Fin 1) (Fin (1 / 4))
                        else if j = i + 1 then Fin (1 / 4) else Fin 0)"
    "Fin (1 / 4) \<noteq> Fin 0 \<and> jssub (Fin 1) (Fin (1 / 4)) \<noteq> Fin 0 \<longrightarrow>
           (\<forall>i. 0 < i \<and> i < nat 3 \<longrightarrow> nonzero_count (M ! i) = 2)"
    by blast
  have q: "jssub (Fin 1) (Fin (1 / 4)) = Fin (3 / 4)" by (simp add: jssub_def)
  have e0: "M ! 1 ! 0 = Fin (3 / 4)" using M(5)[rule_format, of 1 0] by (simp add: q)
  have e2: "M ! 1 ! 2 = Fin (1 / 4)" using M(5)[rule_format, of 1 2] by simp
  have e1: "M ! 1 ! 1 = Fin 0" using M(5)[rule_format, of 1 1] by simp
  have c: "nonzero_count (M ! 2) = 2" using M(6) by (simp add: q)
  show ?thesis using a b M(1,2,3,4) e0 e1 e2 c by auto
qed

text \<open>
  C5. The claim as stated fails: \<^verbatim>\<open>matrixPower\<close> never inspects its exponent. For the
  exponent \<open>-1\<close> it returns the identity matrix, and for \<open>5/2\<close> it returns the square of
  the matrix; no error is raised in either case.
\<close>

theorem matrixPower_no_exponent_check:
  "matrixPower [[Fin 2]] (Fin (- 1)) = Some (Inr [[Fin 1]])
   \<and> matrixPower [[Fin 2]] (Fin (5 / 2)) = Some (Inr [[Fin 4]])"
proof -
  have m: "matrixMultiply [[Fin 2]] [[Fin 2]] = Inr [[Fin 4]]"
    by (simp add: matrixMultiply_def zero_matrix_def zeros_def mm_step_def set_cell_def elem_def)
  have i: "matrixMultiply [[Fin 1]] [[Fin 4]] = Inr [[Fin 4]]"
    by (simp add: matrixMultiply_def zero_matrix_def zeros_def mm_step_def set_cell_def elem_def)
  have q: "matrixMultiply [[Fin 4]] [[Fin 4]] = Inr [[Fin 16]]"
    by (simp add: matrixMultiply_def zero_matrix_def zeros_def mm_step_def set_cell_def elem_def)
  have l3: "power_loop [[Fin 4]] [[Fin 16]] (Fin 0) = Some (Inr [[Fin 4]])"
    by (subst power_loop.simps) (simp add: jsgt_def)
  have l2: "power_loop [[Fin 1]] [[Fin 4]] (Fin 1) = Some (Inr [[Fin 4]])"
    by (subst power_loop.simps) (simp add: jsgt_def jseq_def trunc_def i q l3)
  have l1: "power_loop [[Fin 1]] [[Fin 2]] (Fin (5 / 2)) = Some (Inr [[Fin 4]])"
    by (subst power_loop.simps) (simp add: jsgt_def jseq_def trunc_def m l2)
  have l0: "power_loop [[Fin 1]] [[Fin 2]] (Fin (- 1)) = Some (Inr [[Fin 1]])"
    by (subst power_loop.simps) (simp add: jsgt_def)
  show ?thesis
    by (simp add: matrixPower_def jseq_def identity_def l0 l1)
qed

text \<open>
  C5, amended. \<^verbatim>\<open>matrixPower\<close> raises no error for any finite exponent: for every matrix
  \<open>M\<close> of \<open>n\<close> rows of length \<open>n\<close> (\<open>n \<ge> 1\<close>) and every finite \<open>k\<close>, negative, fractional or
  a non-negative integer, \<^verbatim>\<open>matrixPower(M, k)\<close> returns a matrix of the same shape. The
  result is the identity matrix when \<open>k\<close> is negative, NaN, \<open>-Infinity\<close> or 0, it is \<open>M\<close>
  when \<open>k\<close> is 1, and for \<open>k = 2\<close> it is the identity matrix times the product of \<open>M\<close> with
  itself.
\<close>

theorem matrixPower_returns:
  assumes "shape n n M" "0 < n"
  shows "(\<exists>P. matrixPower M (Fin x) = Some (Inr P) \<and> shape n n P)
       \<and> (x < 0 \<longrightarrow> matrixPower M (Fin x) = Some (Inr (identity n)))
       \<and> matrixPower M NaN = Some (Inr (identity n))
       \<and> matrixPower M NInf = Some (Inr (identity n))
       \<and> matrixPower M (Fin 0) = Some (Inr (identity n))
       \<and> matrixPower M (Fin 1) = Some (Inr M)
       \<and> (\<exists>S P. matrixMultiply M M = Inr S \<and> matrixMultiply (identity n) S = Inr P
              \<and> matrixPower M (Fin 2) = Some (Inr P))"
proof -
  have len: "length M = n" using assms(1) by (simp add: shape_def)
  have a: "\<exists>P. matrixPower M (Fin x) = Some (Inr P) \<and> shape n n P"
  proof -
    consider (zero) "x = 0" | (one) "x = 1" | (loop) "x \<noteq> 0" "x \<noteq> 1" by blast
    then show ?thesis
    proof cases
      case zero
      then show ?thesis using shape_identity by (simp add: matrixPower_def jseq_def len)
    next
      case one
      then show ?thesis using assms(1) by (simp add: matrixPower_def jseq_def)
    next
      case loop
      then have "matrixPower M (Fin x) = power_loop (identity n) M (Fin x)"
        by (simp add: matrixPower_def jseq_def len)
      then show ?thesis
        using power_loop_shape[OF assms(2) shape_identity assms(1), of x] by simp
    qed
  qed
  have b: "x < 0 \<longrightarrow> matrixPower M (Fin x) = Some (Inr (identity n))"
    using matrixPower_not_greater[of "Fin x" M] by (simp add: jsgt_def len)
  have c: "matrixPower M NaN = Some (Inr (identity n))"
    using matrixPower_not_greater[of NaN M] by (simp add: jsgt_def len)
  have d: "matrixPower M NInf = Some (Inr (identity n))"
    using matrixPower_not_greater[of NInf M] by (simp add: jsgt_def len)
  have e: "matrixPower M (Fin 0) = Some (Inr (identity n))"
    by (simp add: matrixPower_def jseq_def len)
  have f: "matrixPower M (Fin 1) = Some (Inr M)"
    by (simp add: matrixPower_def jseq_def)
  have g: "\<exists>S P. matrixMultiply M M = Inr S \<and> matrixMultiply (identity n) S = Inr P
              \<and> matrixPower M (Fin 2) = Some (Inr P)"
  proof -
    note n = assms(2)
    obtain S where S: "matrixMultiply M M = Inr S" "shape n n S"
      using matrixMultiply_shape[OF assms(1) assms(1) n n] by blast
    obtain P where P: "matrixMultiply (identity n) S = Inr P" "shape n n P"
      using matrixMultiply_shape[OF shape_identity S(2) n n] by blast
    obtain T where T: "matrixMultiply S S = Inr T"
      using matrixMultiply_shape[OF S(2) S(2) n n] by blast
    have l3: "power_loop P T (Fin 0) = Some (Inr P)"
      by (subst power_loop.simps) (simp add: jsgt_def)
    have l2: "power_loop (identity n) S (Fin 1) = Some (Inr P)"
      by (subst power_loop.simps) (simp add: jsgt_def jseq_def trunc_def P(1) T l3)
    have l1: "power_loop (identity n) M (Fin 2) = Some (Inr P)"
      by (subst power_loop.simps) (simp add: jsgt_def jseq_def trunc_def S(1) l2)
    have "matrixPower M (Fin 2) = Some (Inr P)"
      by (simp add: matrixPower_def jseq_def len l1)
    then show ?thesis using S(1) P(1) by blast
  qed
  from a b c d e f g show ?thesis by blast
qed

theorem matrixPower_returns_witness:
  "shape 2 2 [[Fin 1, Fin 1], [Fin 0, Fin 1]]
   \<and> (\<exists>P. matrixPower [[Fin 1, Fin 1], [Fin 0, Fin 1]] (Fin (5 / 2)) = Some (Inr P) \<and> shape 2 2 P)
   \<and> matrixPower [[Fin 1, Fin 1], [Fin 0, Fin 1]] (Fin (- 3)) = Some (Inr (identity 2))
   \<and> matrixPower [[Fin 1, Fin 1], [Fin 0, Fin 1]] (Fin 1) = Some (Inr [[Fin 1, Fin 1], [Fin 0, Fin 1]])"
proof -
  have M: "shape 2 2 [[Fin 1, Fin 1], [Fin 0, Fin 1]]" by (simp add: shape_def)
  have n: "(0::nat) < 2" by simp
  show ?thesis
    using M matrixPower_returns[OF M n, of "5 / 2"] matrixPower_returns[OF M n, of "- 3"]
    by simp
qed

text \<open>
  C6. \<^verbatim>\<open>vectorMatrixMultiply\<close> does not compare the length of the vector with the number of
  rows of the matrix: a vector of length 1 and a matrix of 2 rows give a result and no
  error.
\<close>

theorem vectorMatrixMultiply_short_vector:
  "vectorMatrixMultiply [Fin 1] [[Fin 1, Fin 0], [Fin 0, Fin 1]] = Inr [Fin 1, Fin 0]"
  by (simp add: vectorMatrixMultiply_def vm_step_def zeros_def elem_def)

text \<open>
  C7. For every ready session, \<^verbatim>\<open>advanceSteps(k)\<close> with \<open>k\<close> NaN, \<open>-Infinity\<close> or a finite
  number \<open>\<le> 0\<close> is \<^verbatim>\<open>advanceSteps(1)\<close>, which multiplies the current vector by the one-step
  matrix once and adds 1 to the step counter; for an integer \<open>k \<ge> 1\<close>, \<^verbatim>\<open>advanceSteps(k)\<close>
  returns a ready session whose step counter has grown by exactly \<open>k\<close>.
\<close>

theorem advanceSteps_coercion:
  assumes "ready s"
  shows "advanceSteps NaN s = advanceSteps (Fin 1) s
       \<and> advanceSteps NInf s = advanceSteps (Fin 1) s
       \<and> (x \<le> 0 \<longrightarrow> advanceSteps (Fin x) s = advanceSteps (Fin 1) s)
       \<and> (\<exists>v'. vectorMatrixMultiply (currentVector s) (transitionMatrix s) = Inr v'
             \<and> advanceSteps (Fin 1) s
               = Some (Inr (s\<lparr>currentVector := v',
                               currentStep := jsadd (currentStep s) (Fin 1)\<rparr>)))
       \<and> (1 \<le> k \<longrightarrow>
            (\<exists>s'. advanceSteps (Fin (real_of_int k)) s = Some (Inr s')
               \<and> currentStep s' = jsadd (currentStep s) (Fin (real_of_int k))
               \<and> ready s'))"
proof -
  note sh = ready_shape[OF assms]
  have a: "advanceSteps NaN s = advanceSteps (Fin 1) s"
    by (simp add: advanceSteps_def isNaN_def)
  have b: "advanceSteps NInf s = advanceSteps (Fin 1) s"
    by (simp add: advanceSteps_def isNaN_def)
  have c: "x \<le> 0 \<longrightarrow> advanceSteps (Fin x) s = advanceSteps (Fin 1) s"
    by (simp add: advanceSteps_def isNaN_def)
  obtain v' where v': "vectorMatrixMultiply (currentVector s) (transitionMatrix s) = Inr v'"
    using vectorMatrixMultiply_fin[OF sh(3) sh(1) sh(2)] by blast
  have d: "advanceSteps (Fin 1) s
         = Some (Inr (s\<lparr>currentVector := v', currentStep := jsadd (currentStep s) (Fin 1)\<rparr>))"
    by (simp add: advanceSteps_def isNaN_def advanceBySteps_one v')
  have e: "\<exists>s'. advanceSteps (Fin (real_of_int k)) s = Some (Inr s')
               \<and> currentStep s' = jsadd (currentStep s) (Fin (real_of_int k))
               \<and> ready s'" if k: "1 \<le> k"
  proof -
    obtain w where w: "advanceBySteps (currentVector s) (transitionMatrix s) (Fin (real_of_int k)) = Some (Inr w)"
      "finite_vec (nat (N_global s + 1)) w"
      using advanceBySteps_fin[OF sh(3) sh(1) sh(2)] by blast
    let ?s' = "s\<lparr>currentVector := w, currentStep := jsadd (currentStep s) (Fin (real_of_int k))\<rparr>"
    have "advanceSteps (Fin (real_of_int k)) s = Some (Inr ?s')"
      using k by (simp add: advanceSteps_def isNaN_def w(1))
    moreover have "ready ?s'"
    proof -
      obtain c where "currentStep s = Fin c"
        using assms by (cases "currentStep s") (simp_all add: ready_def)
      then show ?thesis using assms w(2) by (simp add: ready_def)
    qed
    ultimately show ?thesis by simp
  qed
  from a b c v' d e show ?thesis by blast
qed

theorem advanceSteps_coercion_witness:
  "ready \<lparr>N_global = 2, n_global = 1, p_global = Fin (1 / 2), currentStep = Fin 0,
          transitionMatrix = [[Fin 1, Fin 0, Fin 0], [Fin (1 / 2), Fin 0, Fin (1 / 2)],
                              [Fin 0, Fin 0, Fin 1]],
          currentVector = [Fin 0, Fin 1, Fin 0]\<rparr>
   \<and> advanceSteps (Fin 0)
        \<lparr>N_global = 2, n_global = 1, p_global = Fin (1 / 2), currentStep = Fin 0,
          transitionMatrix = [[Fin 1, Fin 0, Fin 0], [Fin (1 / 2), Fin 0, Fin (1 / 2)],
                              [Fin 0, Fin 0, Fin 1]],
          currentVector = [Fin 0, Fin 1, Fin 0]\<rparr>
     = Some (Inr \<lparr>N_global = 2, n_global = 1, p_global = Fin (1 / 2), currentStep = Fin 1,
          transitionMatrix = [[Fin 1, Fin 0, Fin 0], [Fin (1 / 2), Fin 0, Fin (1 / 2)],
                              [Fin 0, Fin 0, Fin 1]],
          currentVector = [Fin (1 / 2), Fin 0, Fin (1 / 2)]\<rparr>)"
proof -
  let ?s = "\<lparr>N_global = 2, n_global = 1, p_global = Fin (1 / 2), currentStep = Fin 0,
          transitionMatrix = [[Fin 1, Fin 0, Fin 0], [Fin (1 / 2), Fin 0, Fin (1 / 2)],
                              [Fin 0, Fin 0, Fin 1]],
          currentVector = [Fin 0, Fin 1, Fin 0]\<rparr>"
  have g: "generateTransitionMatrix 2 (Fin (1 / 2))
     = Inr [[Fin 1, Fin 0, Fin 0], [Fin (1 / 2), Fin 0, Fin (1 / 2)], [Fin 0, Fin 0, Fin 1]]"
    by (simp add: generateTransitionMatrix_def array_length_ok_def max_array_length_def
        Let_def zero_matrix_def zeros_def transition_row_def set_cell_def jssub_def
        eval_nat_numeral)
  have r: "ready ?s" by (simp add: ready_def g finite_vec_def)
  have v: "vectorMatrixMultiply [Fin 0, Fin 1, Fin 0]
              [[Fin 1, Fin 0, Fin 0], [Fin (1 / 2), Fin 0, Fin (1 / 2)], [Fin 0, Fin 0, Fin 1]]
         = Inr [Fin (1 / 2), Fin 0, Fin (1 / 2)]"
    by (simp add: vectorMatrixMultiply_def vm_step_def zeros_def elem_def eval_nat_numeral)
  show ?thesis
    using r v advanceSteps_coercion[OF r, of 0 1] by simp
qed

text \<open>
  C8. On the store, \<^verbatim>\<open>matrixMultiply\<close> and \<^verbatim>\<open>matrixPower\<close> (for every finite exponent) return,
  and every array that existed before the call is still there with the contents it had:
  they write to arrays of their own only. In particular the matrices that the caller
  passed, if they are valid references, have the same value after the call.
\<close>

theorem matrix_operations_value_semantic:
  "unchanged h (snd (matrixMultiply_h a b h))
   \<and> (\<exists>r h'. matrixPower_h m (Fin x) h = Some (r, h') \<and> unchanged h h')
   \<and> (valid h a \<and> valid h b \<longrightarrow>
        load (snd (matrixMultiply_h a b h)) a = load h a
        \<and> load (snd (matrixMultiply_h a b h)) b = load h b)
   \<and> (valid h m \<longrightarrow>
        (\<exists>r h'. matrixPower_h m (Fin x) h = Some (r, h') \<and> load h' m = load h m))"
  using matrixMultiply_h_frame[of h a b] matrixPower_h_frame[of m x h] unchanged_load
  by blast

theorem matrix_operations_value_semantic_witness:
  "valid \<lparr>row_store = [[Fin 1, Fin 2], [Fin 3, Fin 4]], mat_store = [[0, 1]]\<rparr> 0
   \<and> load (snd (matrixMultiply_h 0 0
        \<lparr>row_store = [[Fin 1, Fin 2], [Fin 3, Fin 4]], mat_store = [[0, 1]]\<rparr>)) 0
      = [[Fin 1, Fin 2], [Fin 3, Fin 4]]
   \<and> (\<exists>r h'. matrixPower_h 0 (Fin 3)
        \<lparr>row_store = [[Fin 1, Fin 2], [Fin 3, Fin 4]], mat_store = [[0, 1]]\<rparr> = Some (r, h')
        \<and> load h' 0 = [[Fin 1, Fin 2], [Fin 3, Fin 4]])"
proof -
  let ?h = "\<lparr>row_store = [[Fin 1, Fin 2], [Fin 3, Fin 4]], mat_store = [[0, 1]]\<rparr>"
  have v: "valid ?h 0" by (simp add: valid_def)
  have l: "load ?h 0 = [[Fin 1, Fin 2], [Fin 3, Fin 4]]" by (simp add: load_def)
  show ?thesis
    using v l matrix_operations_value_semantic[of ?h 0 0 0 3] by simp
qed

text \<open>
  C9. The claim as stated fails for \<open>N = 4294967295\<close>: \<^verbatim>\<open>Array(N + 1)\<close> is asked for more
  elements than an array can have and throws a RangeError.
\<close>

theorem generateInitialVector_limit:
  "generateInitialVector 4294967295 0 = Inl RangeError"
  by (simp add: generateInitialVector_def array_length_ok_def max_array_length_def)

text \<open>
  C9, amended. For every integer \<open>N\<close> from 1 to 4294967294 and every integer \<open>n\<close>,
  \<^verbatim>\<open>generateInitialVector(N, n)\<close> returns a vector of length \<open>N + 1\<close>: the one-hot vector
  with its one at index \<open>n\<close> when \<open>0 \<le> n \<le> N\<close>, and the all-zero vector when \<open>n < 0\<close> or
  \<open>n > N\<close>.
\<close>

theorem generateInitialVector_one_hot:
  assumes "1 \<le> N" "N + 1 \<le> max_array_length"
  shows "\<exists>v. generateInitialVector N n = Inr v \<and> length v = nat (N + 1)
           \<and> (0 \<le> n \<and> n \<le> N \<longrightarrow> v = one_hot (nat (N + 1)) (nat n))
           \<and> (n < 0 \<or> N < n \<longrightarrow> v = replicate (nat (N + 1)) (Fin 0))"
proof (cases "0 \<le> n \<and> n \<le> N")
  case True
  have ok: "array_length_ok (N + 1)" using assms by (simp add: array_length_ok_def)
  from True have lt: "nat n < nat (N + 1)" by linarith
  have g: "generateInitialVector N n = Inr (one_hot (nat (N + 1)) (nat n))"
    using True ok by (simp add: generateInitialVector_def Let_def zeros_update_one_hot[OF lt])
  have l: "length (one_hot (nat (N + 1)) (nat n)) = nat (N + 1)"
    by (simp add: one_hot_def)
  have "\<not> (n < 0 \<or> N < n)" using True by linarith
  with g l show ?thesis by blast
next
  case False
  have ok: "array_length_ok (N + 1)" using assms by (simp add: array_length_ok_def)
  from False have c: "n < 0 \<or> N < n" by linarith
  have g: "generateInitialVector N n = Inr (replicate (nat (N + 1)) (Fin 0))"
    using c ok by (auto simp: generateInitialVector_def Let_def zeros_def)
  have l: "length (replicate (nat (N + 1)) (Fin 0 :: jsnum)) = nat (N + 1)" by simp
  from g l False show ?thesis by blast
qed

theorem generateInitialVector_one_hot_witness:
  "(1::int) \<le> 3 \<and> (3::int) + 1 \<le> max_array_length
   \<and> (\<exists>v. generateInitialVector 3 2 = Inr v \<and> length v = 4 \<and> v = one_hot 4 2)
   \<and> (\<exists>v. generateInitialVector 3 7 = Inr v \<and> v = replicate 4 (Fin 0))"
proof -
  have a: "(1::int) \<le> 3" by simp
  have b: "(3::int) + 1 \<le> max_array_length" by (simp add: max_array_length_def)
  show ?thesis
    using a b generateInitialVector_one_hot[OF a b, of 2] generateInitialVector_one_hot[OF a b, of 7]
    by simp
qed

text \<open>
  C10. For every \<open>p\<close>, \<^verbatim>\<open>generateTransitionMatrix(1, p)\<close> is the \<open>2 \<times> 2\<close> identity matrix, and
  in a session that holds this matrix and a vector of two finite numbers, every
  \<^verbatim>\<open>advanceSteps(k)\<close> with \<open>k\<close> other than \<open>Infinity\<close> returns a session with the same
  vector.
\<close>

theorem generateTransitionMatrix_one:
  assumes "transitionMatrix s = [[Fin 1, Fin 0], [Fin 0, Fin 1]]"
    and "finite_vec 2 (currentVector s)"
    and "k \<noteq> PInf"
  shows "generateTransitionMatrix 1 p = Inr [[Fin 1, Fin 0], [Fin 0, Fin 1]]
       \<and> (\<exists>s'. advanceSteps k s = Some (Inr s')
              \<and> currentVector s' = currentVector s
              \<and> transitionMatrix s' = transitionMatrix s)"
proof -
  have g: "generateTransitionMatrix 1 p = Inr [[Fin 1, Fin 0], [Fin 0, Fin 1]]"
    by (simp add: generateTransitionMatrix_def array_length_ok_def max_array_length_def
        Let_def zero_matrix_def zeros_def transition_row_def set_cell_def eval_nat_numeral)
  have i: "identity 2 = [[Fin 1, Fin 0], [Fin 0, Fin 1]]"
    by (simp add: identity_def eval_nat_numeral)
  have "\<exists>x. (if jslt k (Fin 1) \<or> isNaN k then Fin 1 else k) = Fin x"
    using assms(3) by (cases k) (simp_all add: isNaN_def)
  then obtain x where x: "(if jslt k (Fin 1) \<or> isNaN k then Fin 1 else k) = Fin x" ..
  have "advanceBySteps (currentVector s) (identity 2) (Fin x) = Some (Inr (currentVector s))"
    using matrixPower_identity[of 2 x] vectorMatrixMultiply_identity[OF assms(2)]
    by (simp add: advanceBySteps_def)
  then have "advanceSteps k s
      = Some (Inr (s\<lparr>currentVector := currentVector s, currentStep := jsadd (currentStep s) (Fin x)\<rparr>))"
    using x by (simp add: advanceSteps_def assms(1) i)
  then show ?thesis using g by simp
qed

theorem generateTransitionMatrix_one_witness:
  "finite_vec 2 [Fin 1, Fin 0]
   \<and> generateTransitionMatrix 1 (Fin (1 / 2)) = Inr [[Fin 1, Fin 0], [Fin 0, Fin 1]]
   \<and> (\<exists>s'. advanceSteps (Fin 7)
               \<lparr>N_global = 1, n_global = 0, p_global = Fin (1 / 2), currentStep = Fin 0,
                 transitionMatrix = [[Fin 1, Fin 0], [Fin 0, Fin 1]],
                 currentVector = [Fin 1, Fin 0]\<rparr> = Some (Inr s')
          \<and> currentVector s' = [Fin 1, Fin 0])"
proof -
  have v: "finite_vec 2 [Fin 1, Fin 0]" by (simp add: finite_vec_def)
  show ?thesis
    using v generateTransitionMatrix_one[of
        "\<lparr>N_global = 1, n_global = 0, p_global = Fin (1 / 2), currentStep = Fin 0,
          transitionMatrix = [[Fin 1, Fin 0], [Fin 0, Fin 1]],
          currentVector = [Fin 1, Fin 0]\<rparr>" "Fin 7" "Fin (1 / 2)"]
    by auto
qed
end
